theory Spec2Isabelle
  imports Main "HOL-Library.Multiset" "HOL-Library.AList" "HOL-Library.List_Lexorder"
    "HOL-Library.Char_ord"
begin

section \<open>Go strings as byte lists\<close>

text \<open>
  A Go \<open>string\<close> is a sequence of bytes; it is modelled as \<open>string\<close> (a list of
  \<open>char\<close>, one per byte). The functions of package \<open>strings\<close> that the generator
  calls are modelled for the separators and cut sets it passes (single bytes).
\<close>

text \<open>\<open>strings.Split(s, sep)\<close> for a one-byte separator: always at least one piece.\<close>

fun strings_Split :: "string \<Rightarrow> char \<Rightarrow> string list" where
  "strings_Split [] c = [[]]"
| "strings_Split (x # xs) c =
     (if x = c then [] # strings_Split xs c
      else (case strings_Split xs c of
              [] \<Rightarrow> [[x]]
            | y # ys \<Rightarrow> (x # y) # ys))"

text \<open>\<open>strings.Join(elems, sep)\<close>.\<close>

fun strings_Join :: "string list \<Rightarrow> string \<Rightarrow> string" where
  "strings_Join [] sep = []"
| "strings_Join [x] sep = x"
| "strings_Join (x # y # ys) sep = x @ sep @ strings_Join (y # ys) sep"

text \<open>\<open>strings.HasPrefix\<close>, \<open>strings.Contains\<close> and \<open>strings.HasSuffix\<close>.\<close>

fun strings_HasPrefix :: "string \<Rightarrow> string \<Rightarrow> bool" where
  "strings_HasPrefix s [] = True"
| "strings_HasPrefix [] (p # ps) = False"
| "strings_HasPrefix (x # xs) (p # ps) = (x = p \<and> strings_HasPrefix xs ps)"

fun strings_Contains :: "string \<Rightarrow> string \<Rightarrow> bool" where
  "strings_Contains [] sub = (sub = [])"
| "strings_Contains (x # xs) sub =
     (strings_HasPrefix (x # xs) sub \<or> strings_Contains xs sub)"

definition strings_HasSuffix :: "string \<Rightarrow> string \<Rightarrow> bool" where
  "strings_HasSuffix s suf = strings_HasPrefix (rev s) (rev suf)"

text \<open>\<open>strings.Trim(s, cutset)\<close>: all leading and trailing bytes of the cut set removed.\<close>

definition strings_Trim :: "string \<Rightarrow> string \<Rightarrow> string" where
  "strings_Trim s cutset =
     rev (dropWhile (\<lambda>c. c \<in> set cutset) (rev (dropWhile (\<lambda>c. c \<in> set cutset) s)))"

section \<open>Panics\<close>

datatype panic = SliceBoundsOutOfRange

section \<open>transformPath (internal/gen)\<close>

text \<open>
  \<^verbatim>\<open>
  func transformPath(path string) string {
      paths := strings.Split(path, "/")
      for i, p := range paths {
          if len(p) > 0 && (p[0] == '{' && p[len(p)-1] == '}' || p[0] == ':') {
              paths[i] = ":" + p[1:len(p)-1]
          }
      }
      return strings.Join(paths, "/")
  }
  \<close>
  The slice expression \<open>p[1:len(p)-1]\<close> panics when \<open>1 > len(p)-1\<close>, that is for a
  one-byte segment; otherwise it drops the first and the last byte.
\<close>

definition isPlaceholder :: "string \<Rightarrow> bool" where
  "isPlaceholder p = (length p > 0 \<and> hd p = CHR ''{'' \<and> last p = CHR ''}'')"

definition transformSegment :: "string \<Rightarrow> panic + string" where
  "transformSegment p =
     (if length p > 0 \<and> (hd p = CHR ''{'' \<and> last p = CHR ''}'' \<or> hd p = CHR '':'')
      then (if 1 \<le> length p - 1
            then Inr ('':'' @ take (length p - 1 - 1) (drop 1 p))
            else Inl SliceBoundsOutOfRange)
      else Inr p)"

fun transformSegments :: "string list \<Rightarrow> panic + string list" where
  "transformSegments [] = Inr []"
| "transformSegments (p # ps) =
     (case transformSegment p of
        Inl e \<Rightarrow> Inl e
      | Inr q \<Rightarrow> (case transformSegments ps of
                    Inl e \<Rightarrow> Inl e
                  | Inr qs \<Rightarrow> Inr (q # qs)))"

definition transformPath :: "string \<Rightarrow> panic + string" where
  "transformPath path =
     (case transformSegments (strings_Split path CHR ''/'') of
        Inl e \<Rightarrow> Inl e
      | Inr paths \<Rightarrow> Inr (strings_Join paths ''/''))"

section \<open>Package metadata: NewContext and FromContext\<close>

text \<open>
  \<^verbatim>\<open>
  type ginKey struct{}
  type GinData struct { Request *http.Request; Params gin.Params; Writer http.ResponseWriter }

  func NewContext(ctx *gin.Context) context.Context {
      data := &GinData{Request: ctx.Request, Params: ctx.Params, Writer: ctx.Writer}
      return context.WithValue(ctx, ginKey{}, data)
  }
  func FromContext(ctx context.Context) (data *GinData, ok bool) {
      data, ok = ctx.Value(ginKey{}).(*GinData)
      return
  }
  \<close>
  The request, the parameters and the writer are kept abstract (type variables). A
  context is either the gin context itself or a \<open>context.WithValue\<close> layer over a parent.
  A key is the unexported \<open>ginKey{}\<close> or any other comparable value; a stored value is a
  \<open>*GinData\<close> or a value of another dynamic type. What \<open>gin.Context.Value\<close> answers
  for a key is a field of the modelled gin context.
\<close>

record ('r, 'p, 'w) GinData =
  gd_Request :: 'r
  gd_Params :: 'p
  gd_Writer :: 'w

datatype ctxKey = ginKey | otherKey string

datatype ('r, 'p, 'w) ctxValue =
  GinDataPtr "('r, 'p, 'w) GinData"
| OtherValue string

record ('r, 'p, 'w) ginContext =
  ctx_Request :: 'r
  ctx_Params :: 'p
  ctx_Writer :: 'w
  ctx_Value :: "ctxKey \<Rightarrow> ('r, 'p, 'w) ctxValue option"

datatype ('r, 'p, 'w) go_context =
  GinCtx "('r, 'p, 'w) ginContext"
| valueCtx "('r, 'p, 'w) go_context" ctxKey "('r, 'p, 'w) ctxValue"

text \<open>\<open>Value\<close> of \<open>context.valueCtx\<close>: the innermost layer with an equal key wins.\<close>

fun context_Value :: "('r, 'p, 'w) go_context \<Rightarrow> ctxKey \<Rightarrow> ('r, 'p, 'w) ctxValue option" where
  "context_Value (GinCtx c) k = ctx_Value c k"
| "context_Value (valueCtx parent k' v) k =
     (if k' = k then Some v else context_Value parent k)"

definition NewContext :: "('r, 'p, 'w) ginContext \<Rightarrow> ('r, 'p, 'w) go_context" where
  "NewContext ctx =
     (let data = \<lparr>gd_Request = ctx_Request ctx, gd_Params = ctx_Params ctx, gd_Writer = ctx_Writer ctx\<rparr>
      in valueCtx (GinCtx ctx) ginKey (GinDataPtr data))"

text \<open>The type assertion \<open>.(*GinData)\<close> with the comma-ok form: nil and false otherwise.\<close>

definition FromContext :: "('r, 'p, 'w) go_context \<Rightarrow> ('r, 'p, 'w) GinData option \<times> bool" where
  "FromContext ctx =
     (case context_Value ctx ginKey of
        Some (GinDataPtr data) \<Rightarrow> (Some data, True)
      | _ \<Rightarrow> (None, False))"

section \<open>Package binding: BindByContentType\<close>

text \<open>
  \<^verbatim>\<open>
  func BindByContentType(ctx *gin.Context, obj any) error {
      contentType := ctx.GetHeader("Content-Type")
      switch {
      case strings.Contains(contentType, "application/xml") || strings.Contains(contentType, "text/xml"):
          return ctx.BindXML(obj)
      case strings.Contains(contentType, "application/x-yaml") || strings.Contains(contentType, "text/yaml"):
          return ctx.BindYAML(obj)
      case strings.Contains(contentType, "application/toml"):
          return ctx.BindTOML(obj)
      case strings.Contains(contentType, "application/x-protobuf"):
          return ctx.ShouldBindWith(obj, ginbinding.ProtoBuf)
      case strings.Contains(contentType, "application/x-msgpack"):
          return ctx.ShouldBindWith(obj, ginbinding.MsgPack)
      case strings.Contains(contentType, "multipart/form-data"):
          return ctx.ShouldBindWith(obj, ginbinding.FormMultipart)
      case strings.Contains(contentType, "application/x-www-form-urlencoded"):
          return ctx.Bind(obj)
      default:
          return ctx.BindJSON(obj)
      }
  }
  \<close>
  The gin call made by each arm is a constructor of \<open>bindCall\<close>; the gin context supplies
  what each call returns (\<open>run\<close>), so the function is the selection followed by that call.
\<close>

datatype bindCall =
  BindXML | BindYAML | BindTOML | ShouldBindWith_ProtoBuf | ShouldBindWith_MsgPack
| ShouldBindWith_FormMultipart | Bind | BindJSON

definition selectBinding :: "string \<Rightarrow> bindCall" where
  "selectBinding contentType =
     (if strings_Contains contentType ''application/xml'' \<or> strings_Contains contentType ''text/xml''
        then BindXML
      else if strings_Contains contentType ''application/x-yaml'' \<or> strings_Contains contentType ''text/yaml''
        then BindYAML
      else if strings_Contains contentType ''application/toml'' then BindTOML
      else if strings_Contains contentType ''application/x-protobuf'' then ShouldBindWith_ProtoBuf
      else if strings_Contains contentType ''application/x-msgpack'' then ShouldBindWith_MsgPack
      else if strings_Contains contentType ''multipart/form-data'' then ShouldBindWith_FormMultipart
      else if strings_Contains contentType ''application/x-www-form-urlencoded'' then Bind
      else BindJSON)"

definition BindByContentType :: "(bindCall \<Rightarrow> 'obj \<Rightarrow> 'err option) \<Rightarrow> string \<Rightarrow> 'obj \<Rightarrow> 'err option" where
  "BindByContentType run contentType obj = run (selectBinding contentType) obj"

text \<open>
  The claim's words: the recognised content-type substrings in their fixed order, each
  with the gin call it selects.
\<close>

definition contentTypeTable :: "(string list \<times> bindCall) list" where
  "contentTypeTable =
     [([''application/xml'', ''text/xml''], BindXML),
      ([''application/x-yaml'', ''text/yaml''], BindYAML),
      ([''application/toml''], BindTOML),
      ([''application/x-protobuf''], ShouldBindWith_ProtoBuf),
      ([''application/x-msgpack''], ShouldBindWith_MsgPack),
      ([''multipart/form-data''], ShouldBindWith_FormMultipart),
      ([''application/x-www-form-urlencoded''], Bind)]"

definition isSubstring :: "string \<Rightarrow> string \<Rightarrow> bool" where
  "isSubstring sub s = (\<exists>pre post. s = pre @ sub @ post)"

fun firstMatch :: "(string list \<times> bindCall) list \<Rightarrow> string \<Rightarrow> bindCall" where
  "firstMatch [] s = BindJSON"
| "firstMatch ((subs, b) # rest) s =
     (if list_ex (\<lambda>sub. isSubstring sub s) subs then b else firstMatch rest s)"


section \<open>The generator (internal/gen): bytes, runes and the three regular expressions\<close>

subsection \<open>camelCase and camelCaseVars\<close>

text \<open>
  \<^verbatim>\<open>
  func isASCIILower(c byte) bool { return 'a' <= c && c <= 'z' }
  func isASCIIDigit(c byte) bool { return '0' <= c && c <= '9' }
  \<close>
\<close>

definition isASCIILower :: "char \<Rightarrow> bool" where
  "isASCIILower c = (CHR ''a'' \<le> c \<and> c \<le> CHR ''z'')"

definition isASCIIUpper :: "char \<Rightarrow> bool" where
  "isASCIIUpper c = (CHR ''A'' \<le> c \<and> c \<le> CHR ''Z'')"

definition isASCIIDigit :: "char \<Rightarrow> bool" where
  "isASCIIDigit c = (CHR ''0'' \<le> c \<and> c \<le> CHR ''9'')"

text \<open>\<open>c ^= ' '\<close>: exclusive or with \<open>0x20\<close> flips bit 5 of the byte.\<close>

definition xorSpace :: "char \<Rightarrow> char" where
  "xorSpace c =
     (case c of Char b0 b1 b2 b3 b4 b5 b6 b7 \<Rightarrow> Char b0 b1 b2 b3 b4 (\<not> b5) b6 b7)"

text \<open>
  \<^verbatim>\<open>
  func camelCase(s string) string {
      if s == "" { return "" }
      t := make([]byte, 0, 32)
      i := 0
      if s[0] == '_' { t = append(t, 'X'); i++ }
      for ; i < len(s); i++ {
          c := s[i]
          if c == '_' && i+1 < len(s) && isASCIILower(s[i+1]) { continue }
          if isASCIIDigit(c) { t = append(t, c); continue }
          if isASCIILower(c) { c ^= ' ' }
          t = append(t, c)
          for i+1 < len(s) && isASCIILower(s[i+1]) { i++; t = append(t, s[i]) }
      }
      return string(t)
  }
  \<close>
  \<open>camelCaseLoop\<close> is the \<open>for\<close> loop on the bytes from index \<open>i\<close> on; the inner loop
  copies the run of lower-case bytes that follows.
\<close>

function camelCaseLoop :: "string \<Rightarrow> string" where
  "camelCaseLoop [] = []"
| "camelCaseLoop (c # s) =
     (if c = CHR ''_'' \<and> s \<noteq> [] \<and> isASCIILower (hd s) then camelCaseLoop s
      else if isASCIIDigit c then c # camelCaseLoop s
      else (if isASCIILower c then xorSpace c else c)
             # takeWhile isASCIILower s @ camelCaseLoop (dropWhile isASCIILower s))"
  by pat_completeness auto
termination
  by (relation "measure length") (auto simp: length_dropWhile_le less_Suc_eq_le)

definition camelCase :: "string \<Rightarrow> string" where
  "camelCase s =
     (if s = [] then []
      else if hd s = CHR ''_'' then CHR ''X'' # camelCaseLoop (tl s)
      else camelCaseLoop s)"

text \<open>
  \<^verbatim>\<open>
  func camelCaseVars(s string) string {
      subs := strings.Split(s, ".")
      vars := make([]string, 0, len(subs))
      for _, sub := range subs { vars = append(vars, camelCase(sub)) }
      return strings.Join(vars, ".")
  }
  \<close>
\<close>

definition camelCaseVars :: "string \<Rightarrow> string" where
  "camelCaseVars s = strings_Join (map camelCase (strings_Split s CHR ''.'')) ''.''"

subsection \<open>strings.TrimSpace and strings.ReplaceAll\<close>

text \<open>
  \<open>strings.TrimSpace\<close> removes the leading and trailing Unicode white space of a UTF-8
  string: the code points U+0009 to U+000D, U+0020, U+0085, U+00A0, U+1680, U+2000 to
  U+200A, U+2028, U+2029, U+202F, U+205F and U+3000, listed here by their encodings.
\<close>

definition unicodeSpaces :: "string list" where
  "unicodeSpaces =
     [[CHR 0x09], [CHR 0x0A], [CHR 0x0B], [CHR 0x0C], [CHR 0x0D], [CHR 0x20],
      [CHR 0xC2, CHR 0x85], [CHR 0xC2, CHR 0xA0], [CHR 0xE1, CHR 0x9A, CHR 0x80],
      [CHR 0xE2, CHR 0x80, CHR 0x80], [CHR 0xE2, CHR 0x80, CHR 0x81],
      [CHR 0xE2, CHR 0x80, CHR 0x82], [CHR 0xE2, CHR 0x80, CHR 0x83],
      [CHR 0xE2, CHR 0x80, CHR 0x84], [CHR 0xE2, CHR 0x80, CHR 0x85],
      [CHR 0xE2, CHR 0x80, CHR 0x86], [CHR 0xE2, CHR 0x80, CHR 0x87],
      [CHR 0xE2, CHR 0x80, CHR 0x88], [CHR 0xE2, CHR 0x80, CHR 0x89],
      [CHR 0xE2, CHR 0x80, CHR 0x8A], [CHR 0xE2, CHR 0x80, CHR 0xA8],
      [CHR 0xE2, CHR 0x80, CHR 0xA9], [CHR 0xE2, CHR 0x80, CHR 0xAF],
      [CHR 0xE2, CHR 0x81, CHR 0x9F], [CHR 0xE3, CHR 0x80, CHR 0x80]]"

text \<open>The number of bytes of the white-space code point a string starts with; 0 if none.\<close>

definition leadingSpace :: "string list \<Rightarrow> string \<Rightarrow> nat" where
  "leadingSpace spaces s =
     (case filter (strings_HasPrefix s) spaces of [] \<Rightarrow> 0 | sp # _ \<Rightarrow> length sp)"

fun trimLeftSpace :: "string list \<Rightarrow> string \<Rightarrow> string" where
  "trimLeftSpace spaces [] = []"
| "trimLeftSpace spaces (c # s) =
     (let n = leadingSpace spaces (c # s)
      in if n = 0 then c # s else trimLeftSpace spaces (drop (n - 1) s))"

definition strings_TrimSpace :: "string \<Rightarrow> string" where
  "strings_TrimSpace s =
     rev (trimLeftSpace (map rev unicodeSpaces) (rev (trimLeftSpace unicodeSpaces s)))"

text \<open>\<open>strings.ReplaceAll(value, "*", ".*")\<close>.\<close>

definition replaceStars :: "string \<Rightarrow> string" where
  "replaceStars value = concat (map (\<lambda>c. if c = CHR ''*'' then ''.*'' else [c]) value)"

subsection \<open>UTF-8 runes, as package regexp reads them\<close>

text \<open>
  Package \<open>regexp\<close> matches rune by rune. \<open>runeWidth\<close> is the number of bytes of the
  first rune of a non-empty string as \<open>utf8.DecodeRuneInString\<close> reports it: the length
  of a well-formed encoding, and 1 for a byte that starts none (read as U+FFFD).
\<close>

definition isCont :: "char \<Rightarrow> bool" where
  "isCont c = (CHR 0x80 \<le> c \<and> c \<le> CHR 0xBF)"

definition runeWidth :: "string \<Rightarrow> nat" where
  "runeWidth s =
     (case s of
        [] \<Rightarrow> 0
      | b0 # r \<Rightarrow>
         (if b0 < CHR 0xC2 \<or> CHR 0xF4 < b0 then 1
          else if b0 \<le> CHR 0xDF then
            (case r of b1 # _ \<Rightarrow> if isCont b1 then 2 else 1 | _ \<Rightarrow> 1)
          else if b0 \<le> CHR 0xEF then
            (case r of
               b1 # b2 # _ \<Rightarrow>
                 if (if b0 = CHR 0xE0 then CHR 0xA0 \<le> b1 \<and> b1 \<le> CHR 0xBF
                     else if b0 = CHR 0xED then CHR 0x80 \<le> b1 \<and> b1 \<le> CHR 0x9F
                     else isCont b1) \<and> isCont b2
                 then 3 else 1
             | _ \<Rightarrow> 1)
          else
            (case r of
               b1 # b2 # b3 # _ \<Rightarrow>
                 if (if b0 = CHR 0xF0 then CHR 0x90 \<le> b1 \<and> b1 \<le> CHR 0xBF
                     else if b0 = CHR 0xF4 then CHR 0x80 \<le> b1 \<and> b1 \<le> CHR 0x8F
                     else isCont b1) \<and> isCont b2 \<and> isCont b3
                 then 4 else 1
             | _ \<Rightarrow> 1)))"

text \<open>
  Under the flag \<open>(?i)\<close> a letter matches every rune of its case-folding orbit: besides
  the other case, \<open>k\<close> and \<open>K\<close> match U+212A (KELVIN SIGN, bytes E2 84 AA) and \<open>s\<close> and
  \<open>S\<close> match U+017F (LATIN SMALL LETTER LONG S, bytes C5 BF). \<open>foldRune\<close> maps the
  bytes of one rune to a representative of its orbit.
\<close>

definition kelvinSign :: string where
  "kelvinSign = [CHR 0xE2, CHR 0x84, CHR 0xAA]"

definition longS :: string where
  "longS = [CHR 0xC5, CHR 0xBF]"

definition foldRune :: "string \<Rightarrow> string" where
  "foldRune r =
     (if r = kelvinSign then ''k''
      else if r = longS then ''s''
      else if length r = 1 \<and> isASCIIUpper (hd r) then [xorSpace (hd r)]
      else r)"

text \<open>The regular expression's \<open>\s\<close> is \<open>[\t\n\f\r ]\<close>.\<close>

definition isRegexSpace :: "char \<Rightarrow> bool" where
  "isRegexSpace c = (c \<in> set [CHR 0x09, CHR 0x0A, CHR 0x0C, CHR 0x0D, CHR 0x20])"

definition notBrace :: "char \<Rightarrow> bool" where
  "notBrace c = (c \<noteq> CHR ''{'' \<and> c \<noteq> CHR ''}'')"

subsection \<open>The expression of buildPathParams\<close>

text \<open>
  \<^verbatim>\<open>(?i){([a-z.0-9_\s]*)=?([^{}]*)}\<close>
  The class of the first group, folded: the ASCII letters of both cases, the digits,
  \<open>.\<close>, \<open>_\<close>, the five white-space bytes, U+017F and U+212A. \<open>classLen\<close> is the
  number of bytes of the class member a string starts with, 0 if it starts with none.
\<close>

definition isClassByte :: "char \<Rightarrow> bool" where
  "isClassByte c =
     (isASCIILower c \<or> isASCIIUpper c \<or> isASCIIDigit c \<or> c = CHR ''.'' \<or> c = CHR ''_''
      \<or> isRegexSpace c)"

definition classLen :: "string \<Rightarrow> nat" where
  "classLen s =
     (if s \<noteq> [] \<and> isClassByte (hd s) then 1
      else if strings_HasPrefix s longS then 2
      else if strings_HasPrefix s kelvinSign then 3
      else 0)"

text \<open>The greedy star of the first group: the longest prefix of class members, and the rest.\<close>

fun takeClass :: "string \<Rightarrow> string \<times> string" where
  "takeClass [] = ([], [])"
| "takeClass (c # s) =
     (let n = classLen (c # s)
      in if n = 0 then ([], c # s)
         else (case takeClass (drop (n - 1) s) of
                 (g, rest) \<Rightarrow> (take n (c # s) @ g, rest)))"

text \<open>
  A match that starts at a \<open>{\<close>, given the text after that brace: both groups and the
  number of bytes matched after the brace. The first group takes as many class members
  as there are, \<open>=?\<close> takes an equals sign if one follows, the second group runs to the
  next brace, which has to be \<open>}\<close>. Backing off from a greedy choice never helps: the
  bytes given back are no braces, so the second group would stop at the same brace.
\<close>

definition matchParam :: "string \<Rightarrow> (string \<times> string \<times> nat) option" where
  "matchParam s =
     (case takeClass s of
        (g1, r1) \<Rightarrow>
          (let eq = (if r1 \<noteq> [] \<and> hd r1 = CHR ''='' then 1 else 0);
               r2 = drop eq r1;
               g2 = takeWhile notBrace r2;
               r3 = dropWhile notBrace r2
           in if r3 \<noteq> [] \<and> hd r3 = CHR ''}''
              then Some (g1, g2, length g1 + eq + length g2 + 1)
              else None))"

text \<open>
  \<open>pattern.FindAllStringSubmatch(path, -1)\<close>: the successive leftmost matches, none
  overlapping; each is given by its two groups.
\<close>

fun findAllParams :: "string \<Rightarrow> (string \<times> string) list" where
  "findAllParams [] = []"
| "findAllParams (c # s) =
     (if c = CHR ''{'' then
        (case matchParam s of
           Some (g1, g2, n) \<Rightarrow> (g1, g2) # findAllParams (drop n s)
         | None \<Rightarrow> findAllParams s)
      else findAllParams s)"

subsection \<open>The expression of extractPathParams\<close>

text \<open>
  \<^verbatim>\<open>
  func extractPathParams(path string) []string {
      pattern := regexp.MustCompile(`{([^}]+)}`)
      matches := pattern.FindAllStringSubmatch(path, -1)
      var params []string
      for _, match := range matches {
          if len(match) > 1 { params = append(params, match[1]) }
      }
      return params
  }
  \<close>
  A match starts at a \<open>{\<close> that is followed by at least one byte other than \<open>}\<close> and
  then by a \<open>}\<close>; the group is everything up to the first \<open>}\<close>.
\<close>

fun extractPathParams :: "string \<Rightarrow> string list" where
  "extractPathParams [] = []"
| "extractPathParams (c # s) =
     (if c = CHR ''{'' then
        (let g = takeWhile (\<lambda>x. x \<noteq> CHR ''}'') s;
             r = dropWhile (\<lambda>x. x \<noteq> CHR ''}'') s
         in if g \<noteq> [] \<and> r \<noteq> [] then g # extractPathParams (drop (length g + 1) s)
            else extractPathParams s)
      else extractPathParams s)"

subsection \<open>The expression of replacePath\<close>

text \<open>
  \<^verbatim>\<open>
  func replacePath(name string, value string, path string) string {
      pattern := regexp.MustCompile(fmt.Sprintf(`(?i){([\s]*%s[\s]*)=?([^{}]*)}`, name))
      idx := pattern.FindStringIndex(path)
      if len(idx) > 0 {
          path = fmt.Sprintf("%s%s:%s%s", path[:idx[0]], name,
              strings.ReplaceAll(value, "*", ".*"), path[idx[1]:])
      }
      return path
  }
  \<close>
  The name is a key of buildPathParams: a trimmed match of the class above, so it is
  written into the expression as a sequence of literal runes and of dots, and it is
  modelled for such names. A dot matches any rune but a line feed; a literal matches a
  rune of the same case-folding orbit.
\<close>

datatype nameElem = AnyRune | Literal string

fun nameElems :: "string \<Rightarrow> nameElem list" where
  "nameElems [] = []"
| "nameElems (c # s) =
     (if c = CHR ''.'' then AnyRune # nameElems s
      else (let w = runeWidth (c # s)
            in Literal (foldRune (take w (c # s))) # nameElems (drop (w - 1) s)))"

text \<open>The bytes one element consumes at the start of a text; \<open>None\<close> if it does not match.\<close>

definition matchElem :: "nameElem \<Rightarrow> string \<Rightarrow> nat option" where
  "matchElem e s =
     (if s = [] then None
      else (case e of
              AnyRune \<Rightarrow> if hd s = CHR 0x0A then None else Some (runeWidth s)
            | Literal k \<Rightarrow>
                if foldRune (take (runeWidth s) s) = k then Some (runeWidth s) else None))"

fun matchElems :: "nameElem list \<Rightarrow> string \<Rightarrow> nat option" where
  "matchElems [] s = Some 0"
| "matchElems (e # es) s =
     (case matchElem e s of
        None \<Rightarrow> None
      | Some n \<Rightarrow> (case matchElems es (drop n s) of
                     None \<Rightarrow> None
                   | Some m \<Rightarrow> Some (n + m)))"

text \<open>
  A match with \<open>k\<close> white-space bytes before the name, given the text after the \<open>{\<close>:
  the name's elements match, and the next brace after them is \<open>}\<close> (the second
  \<open>[\s]*\<close>, \<open>=?\<close> and \<open>[^{}]*\<close> match every byte that is no brace). The result is
  the number of bytes matched after the \<open>{\<close>.
\<close>

definition matchNameAfter :: "nameElem list \<Rightarrow> string \<Rightarrow> nat \<Rightarrow> nat option" where
  "matchNameAfter es s k =
     (case matchElems es (drop k s) of
        None \<Rightarrow> None
      | Some n \<Rightarrow>
          (let r = drop (k + n) s;
               g = takeWhile notBrace r;
               r' = dropWhile notBrace r
           in if r' \<noteq> [] \<and> hd r' = CHR ''}'' then Some (k + n + length g + 1) else None))"

text \<open>
  The first \<open>[\s]*\<close> is greedy: the matcher prefers the longest run of white space and
  gives bytes back one at a time (the name may start with a dot, which matches them).
\<close>

fun matchNameGreedy :: "nameElem list \<Rightarrow> string \<Rightarrow> nat \<Rightarrow> nat option" where
  "matchNameGreedy es s 0 = matchNameAfter es s 0"
| "matchNameGreedy es s (Suc k) =
     (case matchNameAfter es s (Suc k) of
        Some n \<Rightarrow> Some n
      | None \<Rightarrow> matchNameGreedy es s k)"

definition matchNameAt :: "nameElem list \<Rightarrow> string \<Rightarrow> nat option" where
  "matchNameAt es s = matchNameGreedy es s (length (takeWhile isRegexSpace s))"

text \<open>\<open>pattern.FindStringIndex(path)\<close>: the leftmost match, as start and end offsets.\<close>

fun findNameIndex :: "nameElem list \<Rightarrow> string \<Rightarrow> nat \<Rightarrow> (nat \<times> nat) option" where
  "findNameIndex es [] i = None"
| "findNameIndex es (c # s) i =
     (if c = CHR ''{'' then
        (case matchNameAt es s of
           Some n \<Rightarrow> Some (i, i + 1 + n)
         | None \<Rightarrow> findNameIndex es s (i + 1))
      else findNameIndex es s (i + 1))"

definition replacePath :: "string \<Rightarrow> string \<Rightarrow> string \<Rightarrow> string" where
  "replacePath name value path =
     (case findNameIndex (nameElems name) path 0 of
        None \<Rightarrow> path
      | Some (i, j) \<Rightarrow> take i path @ name @ '':'' @ replaceStars value @ drop j path)"


section \<open>The generator (internal/gen): descriptors and the building of method descriptors\<close>

subsection \<open>What a run of the plugin can do besides returning\<close>

text \<open>
  A function of the generator returns, or ends the process with \<open>os.Exit(code)\<close>, or
  panics (no function recovers). What it has written to standard error until then is
  kept beside the outcome, one string for each \<open>fmt.Fprintf(os.Stderr, ...)\<close>.
\<close>

datatype 'a outcome = Returned 'a | Exited nat | Panicked panic

type_synonym 'a proc = "string list \<times> 'a outcome"

definition andThen :: "'a proc \<Rightarrow> ('a \<Rightarrow> 'b proc) \<Rightarrow> 'b proc" where
  "andThen p f =
     (case p of
        (w, Returned x) \<Rightarrow> (case f x of (w', r) \<Rightarrow> (w @ w', r))
      | (w, Exited c) \<Rightarrow> (w, Exited c)
      | (w, Panicked e) \<Rightarrow> (w, Panicked e))"

subsection \<open>The messages written to standard error\<close>

definition warnPrefix :: string where
  "warnPrefix = [CHR 0x1B] @ ''[31mWARN'' @ [CHR 0x1B] @ ''[m: ''"

definition errorPrefix :: string where
  "errorPrefix = [CHR 0x1B] @ ''[31mERROR'' @ [CHR 0x1B] @ ''[m: ''"

definition fieldNotFoundError :: "string \<Rightarrow> string \<Rightarrow> string" where
  "fieldNotFoundError v path =
     errorPrefix @ ''The corresponding field '' @ [CHR 0x27] @ v @ [CHR 0x27]
       @ '' declaration in message could not be found in '' @ [CHR 0x27] @ path @ [CHR 0x27, CHR 0x0A]"

definition mapFieldWarning :: "string \<Rightarrow> string" where
  "mapFieldWarning v =
     warnPrefix @ ''The field in path:'' @ [CHR 0x27] @ v @ [CHR 0x27] @ '' shouldn''
       @ [CHR 0x27] @ ''t be a map.'' @ [CHR 0x0A]"

definition listFieldWarning :: "string \<Rightarrow> string" where
  "listFieldWarning v =
     warnPrefix @ ''The field in path:'' @ [CHR 0x27] @ v @ [CHR 0x27] @ '' shouldn''
       @ [CHR 0x27] @ ''t be a list.'' @ [CHR 0x0A]"

definition trailingSlashWarning :: "string \<Rightarrow> string" where
  "trailingSlashWarning path =
     warnPrefix @ ''Path '' @ path @ '' should not end with '' @ [CHR 0x22] @ ''/''
       @ [CHR 0x22] @ '' '' @ [CHR 0x0A]"

definition bodyDeclaredWarning :: "string \<Rightarrow> string \<Rightarrow> string" where
  "bodyDeclaredWarning method path =
     warnPrefix @ method @ '' '' @ path @ '' body should not be declared.'' @ [CHR 0x0A]"

definition noBodyWarning :: "string \<Rightarrow> string \<Rightarrow> string" where
  "noBodyWarning method path =
     warnPrefix @ method @ '' '' @ path @ '' does not declare a body.'' @ [CHR 0x0A]"

subsection \<open>Protobuf descriptors and the plugin's view of them\<close>

text \<open>\<open>protoreflect.Kind\<close>.\<close>

datatype Kind =
  BoolKind | EnumKind | Int32Kind | Sint32Kind | Uint32Kind | Int64Kind | Sint64Kind
| Uint64Kind | Sfixed32Kind | Fixed32Kind | FloatKind | Sfixed64Kind | Fixed64Kind
| DoubleKind | StringKind | BytesKind | MessageKind | GroupKind

text \<open>
  A \<open>protoreflect.FieldDescriptor\<close>, as far as buildMethodDesc reads it: the name,
  \<open>IsMap()\<close>, \<open>IsList()\<close>, \<open>Kind()\<close> and, for a message or group field, the full name
  of the message type, whose fields the registry of descriptors gives (messages may be
  recursive, so the fields are looked up by name rather than nested).
\<close>

record FieldDescriptor =
  fd_Name :: string
  fd_IsMap :: bool
  fd_IsList :: bool
  fd_Kind :: Kind
  fd_Message :: string

text \<open>\<open>protogen.Message\<close>: the Go identifier and the fields of its descriptor.\<close>

record Message =
  msg_GoIdent :: string
  msg_Fields :: "FieldDescriptor list"

text \<open>
  \<open>annotations.HttpRule\<close>: the pattern (a oneof, possibly unset), the body and response
  body selectors and the additional bindings.
\<close>

datatype Pattern =
  HttpRule_Get string
| HttpRule_Put string
| HttpRule_Post string
| HttpRule_Delete string
| HttpRule_Patch string
| HttpRule_Custom string string
| NoPattern

datatype HttpRule =
  HttpRule (rule_Pattern: Pattern) (rule_Body: string) (rule_ResponseBody: string)
    (rule_AdditionalBindings: "HttpRule list")

text \<open>
  \<open>protogen.Method\<close>: \<open>m_HttpRule\<close> is the extension \<open>google.api.http\<close> of the method's
  options when it is present (\<open>rule != nil && ok\<close>).
\<close>

record Method =
  m_GoName :: string
  m_Name :: string
  m_IsStreamingClient :: bool
  m_IsStreamingServer :: bool
  m_Input :: Message
  m_Output :: Message
  m_HttpRule :: "HttpRule option"

record Service =
  s_GoName :: string
  s_FullName :: string
  s_Deprecated :: bool
  s_Methods :: "Method list"

text \<open>
  \<^verbatim>\<open>
  type fieldInfo struct { Name, GoName, GoType, JsonName string; Tags map[string]string }
  type methodDesc struct {
      Name, OriginalName string; Num int; Request, Reply string
      Path, Method string; HasParams, HasBody bool; Body, ResponseBody, ClientPath string
      PathParams []string; Fields []*fieldInfo
  }
  type serviceDesc struct {
      ServiceType, ServiceName, Metadata string
      Methods []*methodDesc; MethodSets map[string]*methodDesc
  }
  \<close>
  A Go map is an association list with distinct keys; where the code ranges over one, the
  order of the visit is a parameter.
\<close>

record fieldInfo =
  fi_Name :: string
  fi_GoName :: string
  fi_GoType :: string
  fi_JsonName :: string
  fi_Tags :: "(string \<times> string) list"

record methodDesc =
  Name :: string
  OriginalName :: string
  Num :: nat
  Request :: string
  Reply :: string
  Path :: string
  Method :: string
  HasParams :: bool
  HasBody :: bool
  Body :: string
  ResponseBody :: string
  ClientPath :: string
  PathParams :: "string list"
  Fields :: "fieldInfo list"

record serviceDesc =
  ServiceType :: string
  ServiceName :: string
  Metadata :: string
  Methods :: "methodDesc list"
  MethodSets :: "(string \<times> methodDesc) list"

text \<open>
  What the generator takes from outside this file and from libraries: the qualified
  name \<open>g.QualifiedGoIdent\<close> gives a Go identifier, the field information
  \<open>parseMessageFields\<close> collects from a message's options, the fields of a message type
  by its full name, and what \<open>text/template\<close> renders for the handlers of the server
  template (everything from its last \<open>range .Methods\<close> on), for the client template and
  for the template of the tagged structs.
\<close>

record genEnv =
  QualifiedGoIdent :: "string \<Rightarrow> string"
  parseMessageFields :: "Message \<Rightarrow> fieldInfo list"
  messageFields :: "string \<Rightarrow> FieldDescriptor list"
  renderHandlers :: "serviceDesc \<Rightarrow> string"
  renderClient :: "serviceDesc \<Rightarrow> string"
  renderTags :: "serviceDesc \<Rightarrow> string"

subsection \<open>buildPathParams\<close>

text \<open>
  \<^verbatim>\<open>
  func buildPathParams(path string) (res map[string]*string) {
      if strings.HasSuffix(path, "/") {
          fmt.Fprintf(os.Stderr, "\u001B[31mWARN\u001B[m: Path %s should not end with \"/\" \n", path)
      }
      pattern := regexp.MustCompile(`(?i){([a-z.0-9_\s]*)=?([^{}]*)}`)
      matches := pattern.FindAllStringSubmatch(path, -1)
      res = make(map[string]*string, len(matches))
      for _, m := range matches {
          name := strings.TrimSpace(m[1])
          if len(name) > 1 && len(m[2]) > 0 { res[name] = &m[2] } else { res[name] = nil }
      }
      return
  }
  \<close>
\<close>

type_synonym pathParams = "(string \<times> string option) list"

definition setParam :: "string \<times> string \<Rightarrow> pathParams \<Rightarrow> pathParams" where
  "setParam m res =
     (let name = strings_TrimSpace (fst m)
      in if length name > 1 \<and> length (snd m) > 0
         then AList.update name (Some (snd m)) res
         else AList.update name None res)"

definition buildPathParams :: "string \<Rightarrow> string list \<times> pathParams" where
  "buildPathParams path =
     ((if strings_HasSuffix path ''/'' then [trailingSlashWarning path] else []),
      fold setParam (findAllParams path) [])"

subsection \<open>buildMethodDesc\<close>

text \<open>
  \<^verbatim>\<open>
  func buildMethodDesc(g *protogen.GeneratedFile, m *protogen.Method, method, path string) *methodDesc {
      defer func() { methodSets[m.GoName]++ }()
      params := buildPathParams(path)
      for v, s := range params {
          fields := m.Input.Desc.Fields()
          if s != nil { path = replacePath(v, *s, path) }
          for _, field := range strings.Split(v, ".") {
              if strings.TrimSpace(field) == "" { continue }
              if strings.Contains(field, ":") { field = strings.Split(field, ":")[0] }
              fd := fields.ByName(protoreflect.Name(field))
              if fd == nil {
                  fmt.Fprintf(os.Stderr, "\u001B[31mERROR\u001B[m: The corresponding field '%s' declaration in message could not be found in '%s'\n", v, path)
                  os.Exit(2)
              }
              if fd.IsMap() {
                  fmt.Fprintf(os.Stderr, "\u001B[31mWARN\u001B[m: The field in path:'%s' shouldn't be a map.\n", v)
              } else if fd.IsList() {
                  fmt.Fprintf(os.Stderr, "\u001B[31mWARN\u001B[m: The field in path:'%s' shouldn't be a list.\n", v)
              } else if fd.Kind() == protoreflect.MessageKind || fd.Kind() == protoreflect.GroupKind {
                  fields = fd.Message().Fields()
              }
          }
      }
      return &methodDesc{
          Name: m.GoName, OriginalName: string(m.Desc.Name()), Num: methodSets[m.GoName],
          Request: g.QualifiedGoIdent(m.Input.GoIdent), Reply: g.QualifiedGoIdent(m.Output.GoIdent),
          Path: transformPath(path), ClientPath: path, Method: method,
          HasParams: len(params) > 0, Fields: parseMessageFields(m.Input),
      }
  }
  \<close>
\<close>

definition ByName :: "FieldDescriptor list \<Rightarrow> string \<Rightarrow> FieldDescriptor option" where
  "ByName flds name = find (\<lambda>fd. fd_Name fd = name) flds"

text \<open>
  The inner loop, over the pieces of \<open>strings.Split(v, ".")\<close>: \<open>flds\<close> is the
  loop's variable \<open>fields\<close>; \<open>v\<close> and the current \<open>path\<close> are only printed.
\<close>

fun walkFields :: "genEnv \<Rightarrow> string \<Rightarrow> string \<Rightarrow> FieldDescriptor list \<Rightarrow> string list \<Rightarrow> unit proc" where
  "walkFields env v path flds [] = ([], Returned ())"
| "walkFields env v path flds (field # rest) =
     (if strings_TrimSpace field = [] then walkFields env v path flds rest
      else
        (let field' = (if strings_Contains field '':'' then hd (strings_Split field CHR '':'') else field)
         in case ByName flds field' of
              None \<Rightarrow> ([fieldNotFoundError v path], Exited 2)
            | Some fd \<Rightarrow>
                if fd_IsMap fd then
                  (case walkFields env v path flds rest of (w, r) \<Rightarrow> (mapFieldWarning v # w, r))
                else if fd_IsList fd then
                  (case walkFields env v path flds rest of (w, r) \<Rightarrow> (listFieldWarning v # w, r))
                else if fd_Kind fd = MessageKind \<or> fd_Kind fd = GroupKind then
                  walkFields env v path (messageFields env (fd_Message fd)) rest
                else walkFields env v path flds rest))"

text \<open>
  The outer loop, over the entries of \<open>params\<close> in the order of the visit: \<open>path\<close> is
  the loop's variable and its result.
\<close>

fun paramsLoop :: "genEnv \<Rightarrow> Method \<Rightarrow> string \<Rightarrow> pathParams \<Rightarrow> string proc" where
  "paramsLoop env m path [] = ([], Returned path)"
| "paramsLoop env m path ((v, s) # rest) =
     (let path' = (case s of None \<Rightarrow> path | Some value \<Rightarrow> replacePath v value path)
      in case walkFields env v path' (msg_Fields (m_Input m)) (strings_Split v CHR ''.'') of
           (w, Returned u) \<Rightarrow> (case paramsLoop env m path' rest of (w', r) \<Rightarrow> (w @ w', r))
         | (w, Exited c) \<Rightarrow> (w, Exited c)
         | (w, Panicked e) \<Rightarrow> (w, Panicked e))"

text \<open>
  \<open>methodSets\<close> is the package's counter map (\<open>var methodSets = make(map[string]int)\<close>);
  a missing key reads as 0. The deferred increment runs when the function returns; when
  the process exits or panics the map is of no further use. \<open>visit\<close> is the order in
  which this call's \<open>range\<close> visits the entries of \<open>params\<close>.
\<close>

type_synonym methodSets = "string \<Rightarrow> nat"

definition buildMethodDesc ::
  "genEnv \<Rightarrow> (pathParams \<Rightarrow> pathParams) \<Rightarrow> methodSets \<Rightarrow> Method \<Rightarrow> string \<Rightarrow> string
     \<Rightarrow> (methodDesc \<times> methodSets) proc" where
  "buildMethodDesc env visit ms m method path =
     (case buildPathParams path of
        (w0, params) \<Rightarrow>
          andThen (w0, Returned ())
            (\<lambda>u. andThen (paramsLoop env m path (visit params))
              (\<lambda>path'.
                 (case transformPath path' of
                    Inl e \<Rightarrow> ([], Panicked e)
                  | Inr tp \<Rightarrow>
                      ([], Returned
                        (\<lparr>Name = m_GoName m,
                          OriginalName = m_Name m,
                          Num = ms (m_GoName m),
                          Request = QualifiedGoIdent env (msg_GoIdent (m_Input m)),
                          Reply = QualifiedGoIdent env (msg_GoIdent (m_Output m)),
                          Path = tp,
                          Method = method,
                          HasParams = (length params > 0),
                          HasBody = False,
                          Body = [],
                          ResponseBody = [],
                          ClientPath = path',
                          PathParams = [],
                          Fields = parseMessageFields env (m_Input m)\<rparr>,
                         ms(m_GoName m := ms (m_GoName m) + 1)))))))"

subsection \<open>buildHTTPRule\<close>

text \<open>
  \<^verbatim>\<open>
  func buildHTTPRule(g *protogen.GeneratedFile, m *protogen.Method, rule *annotations.HttpRule) *methodDesc {
      var ( path string; method string; body string; responseBody string )
      switch pattern := rule.Pattern.(type) {
      case *annotations.HttpRule_Get:    path = pattern.Get;    method = http.MethodGet
      case *annotations.HttpRule_Put:    path = pattern.Put;    method = http.MethodPut
      case *annotations.HttpRule_Post:   path = pattern.Post;   method = http.MethodPost
      case *annotations.HttpRule_Delete: path = pattern.Delete; method = http.MethodDelete
      case *annotations.HttpRule_Patch:  path = pattern.Patch;  method = http.MethodPatch
      case *annotations.HttpRule_Custom: path = pattern.Custom.Path; method = pattern.Custom.Kind
      }
      body = rule.Body
      responseBody = rule.ResponseBody
      md := buildMethodDesc(g, m, method, path)
      md.PathParams = extractPathParams(path)
      if method == http.MethodGet || method == http.MethodDelete {
          if body != "" {
              _, _ = fmt.Fprintf(os.Stderr, "\u001B[31mWARN\u001B[m: %s %s body should not be declared.\n", method, path)
          }
      } else {
          if body == "" {
              _, _ = fmt.Fprintf(os.Stderr, "\u001B[31mWARN\u001B[m: %s %s does not declare a body.\n", method, path)
          }
      }
      if body == "*" { md.HasBody = true; md.Body = "" }
      else if body != "" { md.HasBody = true; md.Body = "." + camelCaseVars(body) }
      else { md.HasBody = false }
      if responseBody == "*" { md.ResponseBody = "" }
      else if responseBody != "" { md.ResponseBody = "." + camelCaseVars(responseBody) }
      return md
  }
  \<close>
\<close>

definition rulePath :: "HttpRule \<Rightarrow> string" where
  "rulePath rule =
     (case rule_Pattern rule of
        HttpRule_Get p \<Rightarrow> p | HttpRule_Put p \<Rightarrow> p | HttpRule_Post p \<Rightarrow> p
      | HttpRule_Delete p \<Rightarrow> p | HttpRule_Patch p \<Rightarrow> p | HttpRule_Custom kind p \<Rightarrow> p
      | NoPattern \<Rightarrow> [])"

definition ruleMethod :: "HttpRule \<Rightarrow> string" where
  "ruleMethod rule =
     (case rule_Pattern rule of
        HttpRule_Get p \<Rightarrow> ''GET'' | HttpRule_Put p \<Rightarrow> ''PUT'' | HttpRule_Post p \<Rightarrow> ''POST''
      | HttpRule_Delete p \<Rightarrow> ''DELETE'' | HttpRule_Patch p \<Rightarrow> ''PATCH''
      | HttpRule_Custom kind p \<Rightarrow> kind
      | NoPattern \<Rightarrow> [])"

definition mismatchWarnings :: "string \<Rightarrow> string \<Rightarrow> string \<Rightarrow> string list" where
  "mismatchWarnings method path body =
     (if method = ''GET'' \<or> method = ''DELETE''
      then (if body \<noteq> [] then [bodyDeclaredWarning method path] else [])
      else (if body = [] then [noBodyWarning method path] else []))"

definition setBody :: "string \<Rightarrow> methodDesc \<Rightarrow> methodDesc" where
  "setBody body md =
     (if body = ''*'' then md\<lparr>HasBody := True, Body := []\<rparr>
      else if body \<noteq> [] then md\<lparr>HasBody := True, Body := ''.'' @ camelCaseVars body\<rparr>
      else md\<lparr>HasBody := False\<rparr>)"

definition setResponseBody :: "string \<Rightarrow> methodDesc \<Rightarrow> methodDesc" where
  "setResponseBody responseBody md =
     (if responseBody = ''*'' then md\<lparr>ResponseBody := []\<rparr>
      else if responseBody \<noteq> [] then md\<lparr>ResponseBody := ''.'' @ camelCaseVars responseBody\<rparr>
      else md)"

definition buildHTTPRule ::
  "genEnv \<Rightarrow> (pathParams \<Rightarrow> pathParams) \<Rightarrow> methodSets \<Rightarrow> Method \<Rightarrow> HttpRule
     \<Rightarrow> (methodDesc \<times> methodSets) proc" where
  "buildHTTPRule env visit ms m rule =
     (let path = rulePath rule;
          method = ruleMethod rule;
          body = rule_Body rule;
          responseBody = rule_ResponseBody rule
      in andThen (buildMethodDesc env visit ms m method path)
           (\<lambda>(md, ms').
              (mismatchWarnings method path body,
               Returned
                 (setResponseBody responseBody
                    (setBody body (md\<lparr>PathParams := extractPathParams path\<rparr>)),
                  ms'))))"


section \<open>The generator (internal/gen): templates and services\<close>

subsection \<open>The head of the server template\<close>

text \<open>
  \<open>text/template\<close> prints an \<open>int\<close> in decimal and a string as it is; it visits a map
  in the sorted order of its keys (Go compares strings byte by byte).
\<close>

fun showNat :: "nat \<Rightarrow> string" where
  "showNat n =
     (if n < 10 then [char_of (48 + n)]
      else showNat (n div 10) @ [char_of (48 + n mod 10)])"

definition rangeMap :: "(string \<times> 'a) list \<Rightarrow> 'a list" where
  "rangeMap m = map snd (sort_key fst m)"

text \<open>
  The server template, from its start to the \<open>range .Methods\<close> of the handlers:
  \<^verbatim>\<open>
  {{$svrType := .ServiceType}}
  {{$svrName := .ServiceName}}

  {{- range .MethodSets}}
  const Operation{{$svrType}}{{.OriginalName}} = "/{{$svrName}}/{{.OriginalName}}"
  {{- end}}

  type {{.ServiceType}}HTTPServer interface {
  {{- range .MethodSets}}
  	{{.Name}}(context.Context, *{{.Request}}) (*{{.Reply}}, error)
  {{- end}}
  }

  func Register{{.ServiceType}}HTTPServer(r gin.IRouter, srv {{.ServiceType}}HTTPServer) {
  	{{- range .Methods}}
  	r.{{.Method}}("{{.Path}}", _{{$svrType}}_{{.Name}}{{.Num}}_HTTP_Handler(srv))
  	{{- end}}
  }

  func Register{{.ServiceType}}HTTPServerWithMiddleware(r gin.IRouter, srv {{.ServiceType}}HTTPServer, middlewares ...gin.HandlerFunc) {
  	{{- range .Methods}}
  	r.{{.Method}}("{{.Path}}", append(middlewares, _{{$svrType}}_{{.Name}}{{.Num}}_HTTP_Handler(srv))...)
  	{{- end}}
  }

  func Register{{.ServiceType}}HTTPServerWithOperationMiddleware(r gin.IRouter, srv {{.ServiceType}}HTTPServer, middlewares map[string][]gin.HandlerFunc) {
  	{{- range .Methods}}
  	if mws, exists := middlewares[Operation{{$svrType}}{{.OriginalName}}]; exists {
  		r.{{.Method}}("{{.Path}}", append(mws, _{{$svrType}}_{{.Name}}{{.Num}}_HTTP_Handler(srv))...)
  	} else {
  		r.{{.Method}}("{{.Path}}", _{{$svrType}}_{{.Name}}{{.Num}}_HTTP_Handler(srv))
  	}
  	{{- end}}
  }

  \<close>
  An action that opens with \<open>{{-\<close> removes the white space that ends the text before
  it. Each of the five \<open>range\<close> bodies is a function of the service descriptor and of
  the element; \<open>renderServerHead\<close> puts them between the texts around them.
\<close>

definition renderOperationConst :: "serviceDesc \<Rightarrow> methodDesc \<Rightarrow> string" where
  "renderOperationConst sd md =
     [CHR 0x0A] @ ''const Operation'' @ ServiceType sd @ OriginalName md @ '' = '' @ [CHR 0x22]
       @ ''/'' @ ServiceName sd @ ''/'' @ OriginalName md @ [CHR 0x22]"

definition renderInterfaceMethod :: "serviceDesc \<Rightarrow> methodDesc \<Rightarrow> string" where
  "renderInterfaceMethod sd md =
     [CHR 0x0A, CHR 0x09] @ Name md @ ''(context.Context, *'' @ Request md @ '') (*''
       @ Reply md @ '', error)''"

definition renderRegister :: "serviceDesc \<Rightarrow> methodDesc \<Rightarrow> string" where
  "renderRegister sd md =
     [CHR 0x0A, CHR 0x09] @ ''r.'' @ Method md @ ''('' @ [CHR 0x22] @ Path md @ [CHR 0x22]
       @ '', _'' @ ServiceType sd @ ''_'' @ Name md @ showNat (Num md)
       @ ''_HTTP_Handler(srv))''"

definition renderRegisterWithMiddleware :: "serviceDesc \<Rightarrow> methodDesc \<Rightarrow> string" where
  "renderRegisterWithMiddleware sd md =
     [CHR 0x0A, CHR 0x09] @ ''r.'' @ Method md @ ''('' @ [CHR 0x22] @ Path md @ [CHR 0x22]
       @ '', append(middlewares, _'' @ ServiceType sd @ ''_'' @ Name md @ showNat (Num md)
       @ ''_HTTP_Handler(srv))...)''"

definition renderRegisterWithOperationMiddleware :: "serviceDesc \<Rightarrow> methodDesc \<Rightarrow> string" where
  "renderRegisterWithOperationMiddleware sd md =
     [CHR 0x0A, CHR 0x09] @ ''if mws, exists := middlewares[Operation'' @ ServiceType sd
       @ OriginalName md @ '']; exists {'' @ [CHR 0x0A, CHR 0x09, CHR 0x09] @ ''r.''
       @ Method md @ ''('' @ [CHR 0x22] @ Path md @ [CHR 0x22] @ '', append(mws, _''
       @ ServiceType sd @ ''_'' @ Name md @ showNat (Num md) @ ''_HTTP_Handler(srv))...)''
       @ [CHR 0x0A, CHR 0x09] @ ''} else {'' @ [CHR 0x0A, CHR 0x09, CHR 0x09] @ ''r.''
       @ Method md @ ''('' @ [CHR 0x22] @ Path md @ [CHR 0x22] @ '', _'' @ ServiceType sd
       @ ''_'' @ Name md @ showNat (Num md) @ ''_HTTP_Handler(srv))'' @ [CHR 0x0A, CHR 0x09]
       @ ''}''"

definition renderServerHead :: "serviceDesc \<Rightarrow> string" where
  "renderServerHead sd =
     [CHR 0x0A] @ concat (map (renderOperationConst sd) (rangeMap (MethodSets sd)))
       @ [CHR 0x0A, CHR 0x0A] @ ''type '' @ ServiceType sd @ ''HTTPServer interface {''
       @ concat (map (renderInterfaceMethod sd) (rangeMap (MethodSets sd))) @ [CHR 0x0A]
       @ ''}'' @ [CHR 0x0A, CHR 0x0A] @ ''func Register'' @ ServiceType sd
       @ ''HTTPServer(r gin.IRouter, srv '' @ ServiceType sd @ ''HTTPServer) {''
       @ concat (map (renderRegister sd) (Methods sd)) @ [CHR 0x0A] @ ''}''
       @ [CHR 0x0A, CHR 0x0A] @ ''func Register'' @ ServiceType sd
       @ ''HTTPServerWithMiddleware(r gin.IRouter, srv '' @ ServiceType sd
       @ ''HTTPServer, middlewares ...gin.HandlerFunc) {''
       @ concat (map (renderRegisterWithMiddleware sd) (Methods sd)) @ [CHR 0x0A] @ ''}''
       @ [CHR 0x0A, CHR 0x0A] @ ''func Register'' @ ServiceType sd
       @ ''HTTPServerWithOperationMiddleware(r gin.IRouter, srv '' @ ServiceType sd
       @ ''HTTPServer, middlewares map[string][]gin.HandlerFunc) {''
       @ concat (map (renderRegisterWithOperationMiddleware sd) (Methods sd)) @ [CHR 0x0A]
       @ ''}'' @ [CHR 0x0A, CHR 0x0A]"

subsection \<open>serviceDesc.execute\<close>

text \<open>
  \<^verbatim>\<open>
  func (s *serviceDesc) execute() string {
      s.MethodSets = make(map[string]*methodDesc)
      for _, m := range s.Methods { s.MethodSets[m.Name] = m }
      buf := new(bytes.Buffer)
      serverTmpl, err := template.New("server").Funcs(...).Parse(strings.TrimSpace(serverTemplate))
      if err != nil { panic(err) }
      if err := serverTmpl.Execute(buf, s); err != nil { panic(err) }
      buf.WriteString("\n\n")
      clientTmpl, err := template.New("client").Funcs(...).Parse(strings.TrimSpace(clientTemplate))
      if err != nil { panic(err) }
      if err := clientTmpl.Execute(buf, s); err != nil { panic(err) }
      buf.WriteString("\n\n")
      tagsTmpl, err := template.New("tags").Funcs(...).Parse(strings.TrimSpace(tagsStructTemplate))
      if err != nil { panic(err) }
      if err := tagsTmpl.Execute(buf, s); err != nil { panic(err) }
      return strings.Trim(buf.String(), "\r\n")
  }
  \<close>
  The three templates are constants of the package that parse, and their actions read
  fields and call total functions, so the two kinds of \<open>panic(err)\<close> are not modelled.
\<close>

definition setMethodSets :: "serviceDesc \<Rightarrow> serviceDesc" where
  "setMethodSets s = s\<lparr>MethodSets := fold (\<lambda>m. AList.update (Name m) m) (Methods s) []\<rparr>"

definition renderServer :: "genEnv \<Rightarrow> serviceDesc \<Rightarrow> string" where
  "renderServer env s = renderServerHead s @ renderHandlers env s"

definition threeTemplates :: "genEnv \<Rightarrow> serviceDesc \<Rightarrow> string" where
  "threeTemplates env s =
     renderServer env s @ [CHR 0x0A, CHR 0x0A] @ renderClient env s @ [CHR 0x0A, CHR 0x0A]
       @ renderTags env s"

definition execute :: "genEnv \<Rightarrow> serviceDesc \<Rightarrow> string" where
  "execute env s = strings_Trim (threeTemplates env (setMethodSets s)) [CHR 0x0D, CHR 0x0A]"

subsection \<open>genService\<close>

text \<open>
  \<^verbatim>\<open>
  func genService(gen *protogen.Plugin, file *protogen.File, g *protogen.GeneratedFile, service *protogen.Service, omitempty bool) {
      if service.Desc.Options().(*descriptorpb.ServiceOptions).GetDeprecated() {
          g.P("//")
          g.P(deprecationComment)
      }
      sd := &serviceDesc{
          ServiceType: service.GoName,
          ServiceName: string(service.Desc.FullName()),
          Metadata:    file.Desc.Path(),
      }
      for _, method := range service.Methods {
          if method.Desc.IsStreamingClient() || method.Desc.IsStreamingServer() { continue }
          rule, ok := proto.GetExtension(method.Desc.Options(), annotations.E_Http).(*annotations.HttpRule)
          if rule != nil && ok {
              for _, bind := range rule.AdditionalBindings {
                  sd.Methods = append(sd.Methods, buildHTTPRule(g, method, bind))
              }
              sd.Methods = append(sd.Methods, buildHTTPRule(g, method, rule))
          } else if !omitempty {
              path := fmt.Sprintf("/%s/%s", service.Desc.FullName(), method.Desc.Name())
              sd.Methods = append(sd.Methods, buildMethodDesc(g, method, http.MethodPost, path))
          }
      }
      if len(sd.Methods) != 0 { g.P(sd.execute()) }
  }
  \<close>
  \<open>visits i j\<close> is the order of the \<open>range\<close> over the path parameters in the call made
  for the method at index \<open>i\<close> and its binding at index \<open>j\<close> (the additional bindings
  first, the rule itself last).
\<close>

definition deprecationComment :: string where
  "deprecationComment = ''// Deprecated: Do not use.''"

text \<open>The loop over \<open>rule.AdditionalBindings\<close>: the descriptors it appends, in order.\<close>

fun bindingsLoop ::
  "genEnv \<Rightarrow> (nat \<Rightarrow> pathParams \<Rightarrow> pathParams) \<Rightarrow> nat \<Rightarrow> methodSets \<Rightarrow> Method \<Rightarrow> HttpRule list
     \<Rightarrow> (methodDesc list \<times> methodSets) proc" where
  "bindingsLoop env visits j ms m [] = ([], Returned ([], ms))"
| "bindingsLoop env visits j ms m (bind # binds) =
     (case buildHTTPRule env (visits j) ms m bind of
        (w, Returned (md, ms')) \<Rightarrow>
          (case bindingsLoop env visits (Suc j) ms' m binds of
             (w', Returned (mds, ms'')) \<Rightarrow> (w @ w', Returned (md # mds, ms''))
           | (w', Exited c) \<Rightarrow> (w @ w', Exited c)
           | (w', Panicked e) \<Rightarrow> (w @ w', Panicked e))
      | (w, Exited c) \<Rightarrow> (w, Exited c)
      | (w, Panicked e) \<Rightarrow> (w, Panicked e))"

text \<open>One turn of the loop over \<open>service.Methods\<close>: the descriptors appended for a method.\<close>

definition methodDescs ::
  "genEnv \<Rightarrow> (nat \<Rightarrow> pathParams \<Rightarrow> pathParams) \<Rightarrow> methodSets \<Rightarrow> Service \<Rightarrow> bool \<Rightarrow> Method
     \<Rightarrow> (methodDesc list \<times> methodSets) proc" where
  "methodDescs env visits ms service omitempty m =
     (if m_IsStreamingClient m \<or> m_IsStreamingServer m then ([], Returned ([], ms))
      else
        (case m_HttpRule m of
           Some rule \<Rightarrow>
             andThen (bindingsLoop env visits 0 ms m (rule_AdditionalBindings rule))
               (\<lambda>(mds, ms').
                  andThen (buildHTTPRule env (visits (length (rule_AdditionalBindings rule))) ms' m rule)
                    (\<lambda>(md, ms''). ([], Returned (mds @ [md], ms''))))
         | None \<Rightarrow>
             if \<not> omitempty then
               andThen (buildMethodDesc env (visits 0) ms m ''POST''
                          (''/'' @ s_FullName service @ ''/'' @ m_Name m))
                 (\<lambda>(md, ms'). ([], Returned ([md], ms')))
             else ([], Returned ([], ms))))"

fun methodsLoop ::
  "genEnv \<Rightarrow> (nat \<Rightarrow> nat \<Rightarrow> pathParams \<Rightarrow> pathParams) \<Rightarrow> nat \<Rightarrow> methodSets \<Rightarrow> Service \<Rightarrow> bool
     \<Rightarrow> Method list \<Rightarrow> (methodDesc list \<times> methodSets) proc" where
  "methodsLoop env visits i ms service omitempty [] = ([], Returned ([], ms))"
| "methodsLoop env visits i ms service omitempty (m # rest) =
     (case methodDescs env (visits i) ms service omitempty m of
        (w, Returned (mds, ms')) \<Rightarrow>
          (case methodsLoop env visits (Suc i) ms' service omitempty rest of
             (w', Returned (mds', ms'')) \<Rightarrow> (w @ w', Returned (mds @ mds', ms''))
           | (w', Exited c) \<Rightarrow> (w @ w', Exited c)
           | (w', Panicked e) \<Rightarrow> (w @ w', Panicked e))
      | (w, Exited c) \<Rightarrow> (w, Exited c)
      | (w, Panicked e) \<Rightarrow> (w, Panicked e))"

text \<open>The service descriptor \<open>sd\<close> when the loop over the methods is done.\<close>

definition genServiceDesc ::
  "genEnv \<Rightarrow> (nat \<Rightarrow> nat \<Rightarrow> pathParams \<Rightarrow> pathParams) \<Rightarrow> methodSets \<Rightarrow> string \<Rightarrow> Service \<Rightarrow> bool
     \<Rightarrow> (serviceDesc \<times> methodSets) proc" where
  "genServiceDesc env visits ms filePath service omitempty =
     andThen (methodsLoop env visits 0 ms service omitempty (s_Methods service))
       (\<lambda>(mds, ms').
          ([], Returned
             (\<lparr>ServiceType = s_GoName service,
               ServiceName = s_FullName service,
               Metadata = filePath,
               Methods = mds,
               MethodSets = []\<rparr>, ms')))"

text \<open>
  \<open>g\<close> is the generated file as the list of the lines printed into it (\<open>g.P\<close> prints its
  arguments and a line feed).
\<close>

definition genService ::
  "genEnv \<Rightarrow> (nat \<Rightarrow> nat \<Rightarrow> pathParams \<Rightarrow> pathParams) \<Rightarrow> methodSets \<Rightarrow> string \<Rightarrow> string list
     \<Rightarrow> Service \<Rightarrow> bool \<Rightarrow> (string list \<times> methodSets) proc" where
  "genService env visits ms filePath g service omitempty =
     (let g' = (if s_Deprecated service then g @ [''//'', deprecationComment] else g)
      in andThen (genServiceDesc env visits ms filePath service omitempty)
           (\<lambda>(sd, ms').
              ([], Returned
                 (if length (Methods sd) \<noteq> 0 then g' @ [execute env sd] else g', ms'))))"


section \<open>Notions used to state the properties\<close>

text \<open>A line of standard error is a warning or an error by the prefix the code prints.\<close>

definition isWarning :: "string \<Rightarrow> bool" where
  "isWarning line = strings_HasPrefix line warnPrefix"

definition isError :: "string \<Rightarrow> bool" where
  "isError line = strings_HasPrefix line errorPrefix"

text \<open>
  The fields among which the next piece of a placeholder is looked up, after the field
  \<open>fd\<close> has been found among \<open>flds\<close>: the fields of \<open>fd\<close>'s message type when \<open>fd\<close> is a
  singular message or group field, and \<open>flds\<close> again otherwise.
\<close>

definition nextFields :: "genEnv \<Rightarrow> FieldDescriptor list \<Rightarrow> FieldDescriptor \<Rightarrow> FieldDescriptor list" where
  "nextFields env flds fd =
     (if fd_IsMap fd \<or> fd_IsList fd then flds
      else if fd_Kind fd = MessageKind \<or> fd_Kind fd = GroupKind then messageFields env (fd_Message fd)
      else flds)"

text \<open>The name a piece is looked up by: the piece up to its first colon.\<close>

definition fieldKey :: "string \<Rightarrow> string" where
  "fieldKey field = hd (strings_Split field CHR '':'')"

text \<open>
  A placeholder names a field that cannot be found: walking its dot-separated pieces
  (blank pieces skipped) from the fields \<open>flds\<close>, some piece is the name of no field
  among the fields reached.
\<close>

fun missingField :: "genEnv \<Rightarrow> FieldDescriptor list \<Rightarrow> string list \<Rightarrow> bool" where
  "missingField env flds [] = False"
| "missingField env flds (field # rest) =
     (if strings_TrimSpace field = [] then missingField env flds rest
      else (case ByName flds (fieldKey field) of
              None \<Rightarrow> True
            | Some fd \<Rightarrow> missingField env (nextFields env flds fd) rest))"

text \<open>
  The warnings for the placeholder \<open>v\<close>: one for each piece on the walk, up to the first
  that cannot be found, that names a map field or a list field.
\<close>

fun fieldWarnings :: "genEnv \<Rightarrow> string \<Rightarrow> FieldDescriptor list \<Rightarrow> string list \<Rightarrow> string list" where
  "fieldWarnings env v flds [] = []"
| "fieldWarnings env v flds (field # rest) =
     (if strings_TrimSpace field = [] then fieldWarnings env v flds rest
      else (case ByName flds (fieldKey field) of
              None \<Rightarrow> []
            | Some fd \<Rightarrow>
                (if fd_IsMap fd then [mapFieldWarning v]
                 else if fd_IsList fd then [listFieldWarning v] else [])
                @ fieldWarnings env v (nextFields env flds fd) rest))"

definition placeholderMissing :: "genEnv \<Rightarrow> Method \<Rightarrow> string \<times> string option \<Rightarrow> bool" where
  "placeholderMissing env m p =
     missingField env (msg_Fields (m_Input m)) (strings_Split (fst p) CHR ''.'')"

definition placeholderWarnings :: "genEnv \<Rightarrow> Method \<Rightarrow> string \<times> string option \<Rightarrow> string list" where
  "placeholderWarnings env m p =
     fieldWarnings env (fst p) (msg_Fields (m_Input m)) (strings_Split (fst p) CHR ''.'')"


text \<open>
  The path after the rewriting of the placeholders that carry a pattern, in the order
  of the visit.
\<close>

definition rewriteStep :: "string \<times> string option \<Rightarrow> string \<Rightarrow> string" where
  "rewriteStep p path = (case snd p of None \<Rightarrow> path | Some value \<Rightarrow> replacePath (fst p) value path)"

definition rewritePath :: "(pathParams \<Rightarrow> pathParams) \<Rightarrow> string \<Rightarrow> string" where
  "rewritePath visit path = fold rewriteStep (visit (snd (buildPathParams path))) path"

text \<open>The visit is a permutation of the entries of the map.\<close>

definition visitsAll :: "(pathParams \<Rightarrow> pathParams) \<Rightarrow> string \<Rightarrow> bool" where
  "visitsAll visit path =
     (mset (visit (snd (buildPathParams path))) = mset (snd (buildPathParams path)))"


text \<open>The descriptor buildMethodDesc returns, by what its composite literal reads.\<close>

definition newMethodDesc :: "genEnv \<Rightarrow> methodSets \<Rightarrow> Method \<Rightarrow> string \<Rightarrow> string \<Rightarrow> string \<Rightarrow> string \<Rightarrow> methodDesc" where
  "newMethodDesc env ms m method path path' tp =
     \<lparr>Name = m_GoName m,
      OriginalName = m_Name m,
      Num = ms (m_GoName m),
      Request = QualifiedGoIdent env (msg_GoIdent (m_Input m)),
      Reply = QualifiedGoIdent env (msg_GoIdent (m_Output m)),
      Path = tp,
      Method = method,
      HasParams = (length (snd (buildPathParams path)) > 0),
      HasBody = False,
      Body = [],
      ResponseBody = [],
      ClientPath = path',
      PathParams = [],
      Fields = parseMessageFields env (m_Input m)\<rparr>"


text \<open>What buildHTTPRule makes of the descriptor buildMethodDesc has returned.\<close>

definition finishRule :: "HttpRule \<Rightarrow> methodDesc \<Rightarrow> methodDesc" where
  "finishRule rule md =
     setResponseBody (rule_ResponseBody rule)
       (setBody (rule_Body rule) (md\<lparr>PathParams := extractPathParams (rulePath rule)\<rparr>))"

text \<open>
  The rule and its method mismatch: the method is GET or DELETE and the rule declares a
  body, or the method is neither and the rule declares none.
\<close>

definition ruleMismatch :: "HttpRule \<Rightarrow> bool" where
  "ruleMismatch rule =
     ((ruleMethod rule = ''GET'' \<or> ruleMethod rule = ''DELETE'') \<and> rule_Body rule \<noteq> []
      \<or> ruleMethod rule \<noteq> ''GET'' \<and> ruleMethod rule \<noteq> ''DELETE'' \<and> rule_Body rule = [])"

text \<open>A line is one of the two warnings about a rule and its method.\<close>

definition isMismatchWarning :: "HttpRule \<Rightarrow> string \<Rightarrow> bool" where
  "isMismatchWarning rule line =
     (line = bodyDeclaredWarning (ruleMethod rule) (rulePath rule)
      \<or> line = noBodyWarning (ruleMethod rule) (rulePath rule))"

text \<open>The last three bytes of a line, last byte first: they tell the warnings apart.\<close>

definition ending :: "string \<Rightarrow> string" where
  "ending l = take 3 (rev l)"

text \<open>
  buildMethodDesc gets through for a path: in the order of the visit no placeholder
  names a field that cannot be found, and transformPath does not panic on the rewritten
  path.
\<close>

definition builds :: "genEnv \<Rightarrow> (pathParams \<Rightarrow> pathParams) \<Rightarrow> Method \<Rightarrow> string \<Rightarrow> bool" where
  "builds env visit m path =
     (\<not> list_ex (placeholderMissing env m) (visit (snd (buildPathParams path)))
      \<and> \<not> isl (transformPath (rewritePath visit path)))"

text \<open>The value a call has returned, if it has returned.\<close>

fun returned :: "'a outcome \<Rightarrow> 'a option" where
  "returned (Returned x) = Some x"
| "returned (Exited c) = None"
| "returned (Panicked e) = None"

text \<open>The status a call has ended the process with, if it has.\<close>

fun exitCode :: "'a outcome \<Rightarrow> nat option" where
  "exitCode (Exited c) = Some c"
| "exitCode (Returned x) = None"
| "exitCode (Panicked e) = None"

text \<open>The descriptor buildHTTPRule returns for a rule, if it returns.\<close>

definition builtDesc ::
  "genEnv \<Rightarrow> (pathParams \<Rightarrow> pathParams) \<Rightarrow> methodSets \<Rightarrow> Method \<Rightarrow> HttpRule \<Rightarrow> methodDesc option" where
  "builtDesc env visit ms m rule = map_option fst (returned (snd (buildHTTPRule env visit ms m rule)))"

text \<open>
  genService gets through a service: buildMethodDesc gets through for the path of every
  rule it is called for (the additional bindings of a method, then its rule; the default
  path of a method without a rule unless \<open>omitempty\<close>), each in the order of its visit.
\<close>

fun rulesBuild :: "genEnv \<Rightarrow> (nat \<Rightarrow> pathParams \<Rightarrow> pathParams) \<Rightarrow> nat \<Rightarrow> Method \<Rightarrow> HttpRule list \<Rightarrow> bool" where
  "rulesBuild env visits j m [] = True"
| "rulesBuild env visits j m (rule # rules) =
     (builds env (visits j) m (rulePath rule) \<and> rulesBuild env visits (Suc j) m rules)"

definition methodBuilds ::
  "genEnv \<Rightarrow> (nat \<Rightarrow> pathParams \<Rightarrow> pathParams) \<Rightarrow> Service \<Rightarrow> bool \<Rightarrow> Method \<Rightarrow> bool" where
  "methodBuilds env visits service omitempty m =
     (if m_IsStreamingClient m \<or> m_IsStreamingServer m then True
      else (case m_HttpRule m of
              Some rule \<Rightarrow> rulesBuild env visits 0 m (rule_AdditionalBindings rule @ [rule])
            | None \<Rightarrow> omitempty \<or> builds env (visits 0) m (''/'' @ s_FullName service @ ''/'' @ m_Name m)))"

fun methodsBuild ::
  "genEnv \<Rightarrow> (nat \<Rightarrow> nat \<Rightarrow> pathParams \<Rightarrow> pathParams) \<Rightarrow> nat \<Rightarrow> Service \<Rightarrow> bool \<Rightarrow> Method list \<Rightarrow> bool" where
  "methodsBuild env visits i service omitempty [] = True"
| "methodsBuild env visits i service omitempty (m # rest) =
     (methodBuilds env (visits i) service omitempty m
      \<and> methodsBuild env visits (Suc i) service omitempty rest)"

definition serviceBuilds ::
  "genEnv \<Rightarrow> (nat \<Rightarrow> nat \<Rightarrow> pathParams \<Rightarrow> pathParams) \<Rightarrow> Service \<Rightarrow> bool \<Rightarrow> bool" where
  "serviceBuilds env visits service omitempty =
     methodsBuild env visits 0 service omitempty (s_Methods service)"

text \<open>A method is not streaming and carries a rule.\<close>

definition hasRule :: "Method \<Rightarrow> HttpRule \<Rightarrow> bool" where
  "hasRule m rule =
     (\<not> m_IsStreamingClient m \<and> \<not> m_IsStreamingServer m \<and> m_HttpRule m = Some rule)"



text \<open>A byte of the cut set of \<open>strings.Trim(buf.String(), "\r\n")\<close>.\<close>

definition isCRLF :: "char \<Rightarrow> bool" where
  "isCRLF c = (c = CHR 0x0D \<or> c = CHR 0x0A)"

section \<open>A small service, for the concrete instances\<close>

text \<open>
  A request message with a scalar field \<open>id\<close>, a repeated field \<open>tags\<close>, a map field
  \<open>labels\<close> and a message field \<open>profile\<close> whose type has the scalar field \<open>nick\<close>.
\<close>

definition exampleRequest :: Message where
  "exampleRequest =
     \<lparr>msg_GoIdent = ''GetUserRequest'',
      msg_Fields =
        [\<lparr>fd_Name = ''id'', fd_IsMap = False, fd_IsList = False, fd_Kind = StringKind, fd_Message = []\<rparr>,
         \<lparr>fd_Name = ''tags'', fd_IsMap = False, fd_IsList = True, fd_Kind = StringKind, fd_Message = []\<rparr>,
         \<lparr>fd_Name = ''labels'', fd_IsMap = True, fd_IsList = False, fd_Kind = MessageKind,
           fd_Message = ''example.GetUserRequest.LabelsEntry''\<rparr>,
         \<lparr>fd_Name = ''profile'', fd_IsMap = False, fd_IsList = False, fd_Kind = MessageKind,
           fd_Message = ''example.Profile''\<rparr>]\<rparr>"

definition exampleReply :: Message where
  "exampleReply = \<lparr>msg_GoIdent = ''GetUserReply'', msg_Fields = []\<rparr>"

definition exampleEnv :: genEnv where
  "exampleEnv =
     \<lparr>QualifiedGoIdent = (\<lambda>ident. ident),
      parseMessageFields = (\<lambda>msg. []),
      messageFields =
        (\<lambda>name. if name = ''example.Profile''
                 then [\<lparr>fd_Name = ''nick'', fd_IsMap = False, fd_IsList = False,
                        fd_Kind = StringKind, fd_Message = []\<rparr>]
                 else []),
      renderHandlers = (\<lambda>sd. ''// handlers''),
      renderClient = (\<lambda>sd. ''// client''),
      renderTags = (\<lambda>sd. ''// tags'')\<rparr>"

definition exampleMethod :: "HttpRule option \<Rightarrow> Method" where
  "exampleMethod rule =
     \<lparr>m_GoName = ''GetUser'', m_Name = ''GetUser'',
      m_IsStreamingClient = False, m_IsStreamingServer = False,
      m_Input = exampleRequest, m_Output = exampleReply, m_HttpRule = rule\<rparr>"

text \<open>The visit in the order of insertion, and the counter map of a fresh process.\<close>

definition inOrder :: "pathParams \<Rightarrow> pathParams" where
  "inOrder params = params"

definition noMethodSets :: methodSets where
  "noMethodSets = (\<lambda>name. 0)"



definition ruleGetWithBody :: HttpRule where
  "ruleGetWithBody = HttpRule (HttpRule_Get ''/users/{id}'') ''user_info.first_name'' ''*'' []"

definition rulePostWithBody :: HttpRule where
  "rulePostWithBody = HttpRule (HttpRule_Post ''/users/{id}'') ''user_info.first_name'' ''*'' []"

definition ruleGetMissingField :: HttpRule where
  "ruleGetMissingField = HttpRule (HttpRule_Get ''/users/{nope}'') ''*'' [] []"

text \<open>A service with the one method, and the visits all in the order of insertion.\<close>

definition exampleService :: "HttpRule option \<Rightarrow> Service" where
  "exampleService rule =
     \<lparr>s_GoName = ''Users'', s_FullName = ''example.Users'', s_Deprecated = False,
      s_Methods = [exampleMethod rule]\<rparr>"

definition allInOrder :: "nat \<Rightarrow> nat \<Rightarrow> pathParams \<Rightarrow> pathParams" where
  "allInOrder i j = inOrder"

text \<open>A rule with one additional binding, and one whose additional binding names no field.\<close>

definition ruleTwoBindings :: HttpRule where
  "ruleTwoBindings =
     HttpRule (HttpRule_Get ''/users/{id}'') [] []
       [HttpRule (HttpRule_Post ''/users/{id}/tags'') ''*'' [] []]"

definition ruleBadBinding :: HttpRule where
  "ruleBadBinding =
     HttpRule (HttpRule_Get ''/users/{id}'') [] []
       [HttpRule (HttpRule_Post ''/users/{nope}'') ''*'' [] []]"

text \<open>A service descriptor with one method descriptor, as genService builds it.\<close>

definition exampleServiceDesc :: serviceDesc where
  "exampleServiceDesc =
     \<lparr>ServiceType = ''Users'', ServiceName = ''example.Users'', Metadata = ''users.proto'',
      Methods =
        [\<lparr>Name = ''GetUser'', OriginalName = ''GetUser'', Num = 0,
          Request = ''GetUserRequest'', Reply = ''GetUserReply'',
          Path = ''/users/:id'', Method = ''GET'', HasParams = True, HasBody = False,
          Body = [], ResponseBody = [], ClientPath = ''/users/{id}'',
          PathParams = [''id''], Fields = []\<rparr>],
      MethodSets = []\<rparr>"

text \<open>
  A method whose request has the scalar fields \<open>a\<close>, \<open>b\<close> and \<open>axb\<close>, and the visit in
  the reverse of the order of insertion.
\<close>

definition wildcardMethod :: Method where
  "wildcardMethod =
     \<lparr>m_GoName = ''Find'', m_Name = ''Find'',
      m_IsStreamingClient = False, m_IsStreamingServer = False,
      m_Input =
        \<lparr>msg_GoIdent = ''FindRequest'',
         msg_Fields =
           [\<lparr>fd_Name = ''a'', fd_IsMap = False, fd_IsList = False, fd_Kind = StringKind, fd_Message = []\<rparr>,
            \<lparr>fd_Name = ''b'', fd_IsMap = False, fd_IsList = False, fd_Kind = StringKind, fd_Message = []\<rparr>,
            \<lparr>fd_Name = ''axb'', fd_IsMap = False, fd_IsList = False, fd_Kind = StringKind, fd_Message = []\<rparr>]\<rparr>,
      m_Output = exampleReply, m_HttpRule = None\<rparr>"

definition reversed :: "pathParams \<Rightarrow> pathParams" where
  "reversed params = rev params"


section \<open>Theorems\<close>

subsection \<open>Strings\<close>

lemma strings_HasPrefix_iff: "strings_HasPrefix s p \<longleftrightarrow> (\<exists>post. s = p @ post)"
  by (induction s p rule: strings_HasPrefix.induct) auto

lemma strings_Contains_iff: "strings_Contains s sub \<longleftrightarrow> isSubstring sub s"
proof (induction s)
  case Nil
  show ?case by (auto simp: isSubstring_def)
next
  case (Cons x xs)
  show ?case
  proof
    assume "strings_Contains (x # xs) sub"
    then consider "strings_HasPrefix (x # xs) sub" | "strings_Contains xs sub" by auto
    then show "isSubstring sub (x # xs)"
    proof cases
      case 1
      then obtain post where "x # xs = sub @ post" by (auto simp: strings_HasPrefix_iff)
      then have "x # xs = [] @ sub @ post" by simp
      then show ?thesis unfolding isSubstring_def by blast
    next
      case 2
      with Cons obtain pre post where "xs = pre @ sub @ post" by (auto simp: isSubstring_def)
      then have "x # xs = (x # pre) @ sub @ post" by simp
      then show ?thesis unfolding isSubstring_def by blast
    qed
  next
    assume "isSubstring sub (x # xs)"
    then obtain pre post where eq: "x # xs = pre @ sub @ post" by (auto simp: isSubstring_def)
    show "strings_Contains (x # xs) sub"
    proof (cases pre)
      case Nil
      with eq have "strings_HasPrefix (x # xs) sub" by (auto simp: strings_HasPrefix_iff)
      then show ?thesis by simp
    next
      case (Cons y ys)
      with eq have "xs = ys @ sub @ post" by simp
      then have "isSubstring sub xs" unfolding isSubstring_def by blast
      with Cons.IH show ?thesis by simp
    qed
  qed
qed

subsection \<open>transformPath\<close>

lemma transformSegment_placeholder:
  "transformSegment (CHR ''{'' # field @ ''}'') = Inr (CHR '':'' # field)"
  by (simp add: transformSegment_def)

lemma transformSegment_other:
  "\<not> isPlaceholder p \<Longrightarrow> \<not> (p \<noteq> [] \<and> hd p = CHR '':'') \<Longrightarrow> transformSegment p = Inr p"
  by (auto simp: transformSegment_def isPlaceholder_def)

text \<open>
  On a path without a segment that starts with a colon, transformPath rewrites the
  placeholder segments and leaves the others as they are; on a one-byte segment \<open>:\<close>
  it panics.
\<close>

lemma transformSegment_isPlaceholder:
  assumes "isPlaceholder p"
  shows "transformSegment p = Inr (CHR '':'' # butlast (tl p))"
proof -
  from assms have ne: "p \<noteq> []" and h: "hd p = CHR ''{''" and l: "last p = CHR ''}''"
    by (auto simp: isPlaceholder_def)
  have "length p \<noteq> 1"
  proof
    assume "length p = 1"
    then obtain c where "p = [c]" by (cases p) auto
    with h l show False by simp
  qed
  moreover have "length p \<noteq> 0" using ne by simp
  ultimately have len: "2 \<le> length p" by arith
  have "take (length p - 1 - 1) (drop 1 p) = butlast (tl p)"
    by (simp add: butlast_conv_take drop_Suc)
  with h l ne len show ?thesis by (simp add: transformSegment_def)
qed

lemma transformSegments_no_colon:
  assumes "list_all (\<lambda>p. \<not> (p \<noteq> [] \<and> hd p = CHR '':'')) ps"
  shows "transformSegments ps
           = Inr (map (\<lambda>p. if isPlaceholder p then CHR '':'' # butlast (tl p) else p) ps)"
  using assms
proof (induction ps)
  case Nil
  show ?case by simp
next
  case (Cons p ps)
  then have "\<not> (p \<noteq> [] \<and> hd p = CHR '':'')" by simp
  then have "transformSegment p = Inr (if isPlaceholder p then CHR '':'' # butlast (tl p) else p)"
    using transformSegment_isPlaceholder [of p] transformSegment_other [of p] by simp
  with Cons show ?case by simp
qed

lemma transformPath_no_colon:
  assumes "list_all (\<lambda>p. \<not> (p \<noteq> [] \<and> hd p = CHR '':'')) (strings_Split path CHR ''/'')"
  shows "transformPath path
           = Inr (strings_Join
                    (map (\<lambda>p. if isPlaceholder p then CHR '':'' # butlast (tl p) else p)
                       (strings_Split path CHR ''/'')) ''/'')"
  by (simp add: transformPath_def transformSegments_no_colon [OF assms])

lemma transformPath_colon_panics: "transformPath ''/users/:'' = Inl SliceBoundsOutOfRange"
  by (simp add: transformPath_def transformSegment_def)

text \<open>
  C1. transformPath rewrites each slash-separated segment \<open>{field}\<close> into \<open>:field\<close> and
  is to leave every other segment unchanged. A segment that already has the router's
  form \<open>:field\<close> is not a placeholder, yet the guard \<open>p[0] == ':'\<close> sends it through
  the same slice \<open>p[1:len(p)-1]\<close>, which drops its last byte: the path \<open>/users/:id\<close>
  comes back as \<open>/users/:i\<close>.
\<close>

theorem transformPath_colon_segment:
  "transformPath ''/users/:id'' = Inr ''/users/:i''"
  by (simp add: transformPath_def transformSegment_def)

subsection \<open>Metadata round trip\<close>

text \<open>
  C9. For every gin context, FromContext applied to the context returned by NewContext
  yields ok = true and a GinData whose Request, Params and Writer are those of the gin
  context.
\<close>

theorem FromContext_NewContext:
  "FromContext (NewContext ctx) =
     (Some \<lparr>gd_Request = ctx_Request ctx, gd_Params = ctx_Params ctx, gd_Writer = ctx_Writer ctx\<rparr>, True)"
  by (simp add: FromContext_def NewContext_def)

subsection \<open>BindByContentType\<close>

lemma firstMatch_select: "firstMatch contentTypeTable ct = selectBinding ct"
  by (simp add: contentTypeTable_def selectBinding_def strings_Contains_iff)

lemma firstMatch_none:
  "(\<forall>(subs, b) \<in> set tbl. \<forall>sub \<in> set subs. \<not> isSubstring sub ct) \<Longrightarrow> firstMatch tbl ct = BindJSON"
  by (induction tbl ct rule: firstMatch.induct) (auto simp: list_ex_iff)

lemma not_isSubstring_Nil: "sub \<noteq> [] \<Longrightarrow> \<not> isSubstring sub []"
  by (simp add: isSubstring_def)

lemma firstMatch_empty: "firstMatch contentTypeTable [] = BindJSON"
  by (rule firstMatch_none) (simp add: contentTypeTable_def not_isSubstring_Nil)

text \<open>
  C10. BindByContentType is total over Content-Type header values: for every value it
  makes exactly the gin call of the first row of the table (XML, YAML, TOML, ProtoBuf,
  MsgPack, multipart form, URL-encoded form, in this order) one of whose substrings the
  value contains; for a value that contains none of them, the empty string included, it
  calls the JSON binding.
\<close>

theorem BindByContentType_table:
  "BindByContentType run ct obj = run (firstMatch contentTypeTable ct) obj
   \<and> ((\<forall>(subs, b) \<in> set contentTypeTable. \<forall>sub \<in> set subs. \<not> isSubstring sub ct)
        \<longrightarrow> BindByContentType run ct obj = run BindJSON obj)
   \<and> BindByContentType run [] obj = run BindJSON obj"
proof (intro conjI impI)
  show a: "BindByContentType run ct obj = run (firstMatch contentTypeTable ct) obj" for ct
    by (simp only: BindByContentType_def firstMatch_select)
  show "BindByContentType run ct obj = run BindJSON obj"
    if "\<forall>(subs, b) \<in> set contentTypeTable. \<forall>sub \<in> set subs. \<not> isSubstring sub ct"
    using firstMatch_none [OF that] a by simp
  show "BindByContentType run [] obj = run BindJSON obj"
    using firstMatch_empty a by simp
qed

theorem BindByContentType_table_witness:
  "BindByContentType (\<lambda>b obj. Some b) ''text/plain'' () = Some BindJSON
   \<and> BindByContentType (\<lambda>b obj. Some b) ''text/xml; application/toml'' () = Some BindXML"
proof -
  have h: "\<forall>(subs, b) \<in> set contentTypeTable. \<forall>sub \<in> set subs. \<not> isSubstring sub ''text/plain''"
    by (simp add: contentTypeTable_def strings_Contains_iff [symmetric])
  have x: "firstMatch contentTypeTable ''text/xml; application/toml'' = BindXML"
    unfolding firstMatch_select by (simp add: selectBinding_def)
  have 1: "BindByContentType (\<lambda>b obj. Some b) ''text/plain'' () = Some BindJSON"
    using h BindByContentType_table [of "\<lambda>b obj. Some b" "''text/plain''" "()"] by blast
  have 2: "BindByContentType (\<lambda>b obj. Some b) ''text/xml; application/toml'' () = Some BindXML"
    using x BindByContentType_table [of "\<lambda>b obj. Some b" "''text/xml; application/toml''" "()"] by simp
  from 1 2 show ?thesis by blast
qed

subsection \<open>buildMethodDesc: standard error and outcome\<close>

lemma isWarning_simps [simp]:
  "isWarning (mapFieldWarning v)" "isWarning (listFieldWarning v)"
  "isWarning (trailingSlashWarning p)" "isWarning (bodyDeclaredWarning me p)"
  "isWarning (noBodyWarning me p)"
  by (simp_all add: isWarning_def strings_HasPrefix_iff mapFieldWarning_def listFieldWarning_def
      trailingSlashWarning_def bodyDeclaredWarning_def noBodyWarning_def)

lemma isError_fieldNotFoundError [simp]: "isError (fieldNotFoundError v p)"
  by (simp add: isError_def strings_HasPrefix_iff fieldNotFoundError_def)

lemma not_isWarning_error [simp]: "\<not> isWarning (fieldNotFoundError v p)"
  by (simp add: isWarning_def fieldNotFoundError_def warnPrefix_def errorPrefix_def)

lemma list_all_isWarning_fieldWarnings [simp]: "list_all isWarning (fieldWarnings env v flds segs)"
  by (induction env v flds segs rule: fieldWarnings.induct) (auto split: option.splits)

lemma strings_Split_not_Nil [simp]: "strings_Split s c \<noteq> []"
  by (induction s) (auto split: list.splits)

lemma strings_Split_no_sep: "c \<notin> set s \<Longrightarrow> strings_Split s c = [s]"
  by (induction s) auto

lemma strings_Contains_char: "strings_Contains s [c] \<longleftrightarrow> c \<in> set s"
  by (induction s) auto

lemma fieldKey_no_colon: "\<not> strings_Contains field '':'' \<Longrightarrow> fieldKey field = field"
  by (simp add: fieldKey_def strings_Contains_char strings_Split_no_sep)

lemma walkFields_eq:
  "walkFields env v path flds segs =
     (fieldWarnings env v flds segs @ (if missingField env flds segs then [fieldNotFoundError v path] else []),
      if missingField env flds segs then Exited 2 else Returned ())"
proof (induction env v path flds segs rule: walkFields.induct)
  case (1 env v path flds)
  show ?case by simp
next
  case (2 env v path flds field rest)
  have key: "(if strings_Contains field '':'' then hd (strings_Split field CHR '':'') else field) = fieldKey field"
    using fieldKey_no_colon [of field] by (simp add: fieldKey_def)
  show ?case
  proof (cases "strings_TrimSpace field = []")
    case True
    with 2 show ?thesis by simp
  next
    case False
    show ?thesis
    proof (cases "ByName flds (fieldKey field)")
      case None
      with False key show ?thesis by simp
    next
      case (Some fd)
      with False key 2 show ?thesis
        by (auto simp: nextFields_def Let_def)
    qed
  qed
qed


lemma paramsLoop_found:
  "\<not> list_ex (placeholderMissing env m) ord \<Longrightarrow>
   paramsLoop env m path ord =
     (concat (map (placeholderWarnings env m) ord), Returned (fold rewriteStep ord path))"
proof (induction ord arbitrary: path)
  case Nil
  show ?case by simp
next
  case (Cons p ord)
  obtain v s where p: "p = (v, s)" by (cases p)
  from Cons.prems have nm: "\<not> placeholderMissing env m p" and rest: "\<not> list_ex (placeholderMissing env m) ord"
    by simp_all
  from nm p have w: "\<not> missingField env (msg_Fields (m_Input m)) (strings_Split v CHR ''.'')"
    by (simp add: placeholderMissing_def)
  show ?case
    using Cons.IH [OF rest] w
    by (simp add: p walkFields_eq placeholderWarnings_def rewriteStep_def split: option.splits)
qed


lemma list_all_isWarning_placeholders [simp]:
  "list_all isWarning (concat (map (placeholderWarnings env m) ord))"
  by (induction ord) (simp_all add: placeholderWarnings_def)

lemma list_all_isWarning_buildPathParams [simp]: "list_all isWarning (fst (buildPathParams path))"
  by (simp add: buildPathParams_def)

lemma buildMethodDesc_eq:
  "buildMethodDesc env visit ms m method path =
     (case paramsLoop env m path (visit (snd (buildPathParams path))) of
        (w1, Returned path') \<Rightarrow>
          (fst (buildPathParams path) @ w1,
           case transformPath path' of
             Inl e \<Rightarrow> Panicked e
           | Inr tp \<Rightarrow> Returned (newMethodDesc env ms m method path path' tp,
                                 ms(m_GoName m := ms (m_GoName m) + 1)))
      | (w1, Exited c) \<Rightarrow> (fst (buildPathParams path) @ w1, Exited c)
      | (w1, Panicked e) \<Rightarrow> (fst (buildPathParams path) @ w1, Panicked e))"
  by (simp add: buildMethodDesc_def andThen_def newMethodDesc_def
      split: prod.splits outcome.splits sum.splits)

lemma buildMethodDesc_found:
  assumes "\<not> list_ex (placeholderMissing env m) (visit (snd (buildPathParams path)))"
  shows "buildMethodDesc env visit ms m method path =
      (fst (buildPathParams path) @ concat (map (placeholderWarnings env m) (visit (snd (buildPathParams path)))),
       case transformPath (rewritePath visit path) of
         Inl e \<Rightarrow> Panicked e
       | Inr tp \<Rightarrow> Returned (newMethodDesc env ms m method path (rewritePath visit path) tp,
                             ms(m_GoName m := ms (m_GoName m) + 1)))"
  unfolding rewritePath_def by (simp add: buildMethodDesc_eq paramsLoop_found [OF assms])




subsection \<open>buildHTTPRule: the warnings about a rule and its method\<close>

lemma buildHTTPRule_eq:
  "buildHTTPRule env visit ms m rule =
     (case buildMethodDesc env visit ms m (ruleMethod rule) (rulePath rule) of
        (w, Returned (md, ms')) \<Rightarrow>
          (w @ mismatchWarnings (ruleMethod rule) (rulePath rule) (rule_Body rule),
           Returned (finishRule rule md, ms'))
      | (w, Exited c) \<Rightarrow> (w, Exited c)
      | (w, Panicked e) \<Rightarrow> (w, Panicked e))"
  by (simp add: buildHTTPRule_def andThen_def finishRule_def Let_def
      split: prod.splits outcome.splits)

lemma mismatchWarnings_iff: "mismatchWarnings (ruleMethod rule) (rulePath rule) (rule_Body rule) \<noteq> [] \<longleftrightarrow> ruleMismatch rule"
  by (auto simp: mismatchWarnings_def ruleMismatch_def)

lemma list_all_isWarning_mismatch [simp]: "list_all isWarning (mismatchWarnings me p b)"
  by (simp add: mismatchWarnings_def)

lemma set_mismatchWarnings:
  "l \<in> set (mismatchWarnings (ruleMethod rule) (rulePath rule) (rule_Body rule)) \<Longrightarrow> isMismatchWarning rule l"
  by (auto simp: mismatchWarnings_def isMismatchWarning_def split: if_splits)

lemma ending_simps:
  "ending (mapFieldWarning v) = [CHR 0x0A, CHR ''.'', CHR ''p'']"
  "ending (listFieldWarning v) = [CHR 0x0A, CHR ''.'', CHR ''t'']"
  "ending (trailingSlashWarning p) = [CHR 0x0A, CHR '' '', CHR 0x22]"
  "ending (bodyDeclaredWarning me p) = [CHR 0x0A, CHR ''.'', CHR ''d'']"
  "ending (noBodyWarning me p) = [CHR 0x0A, CHR ''.'', CHR ''y'']"
  by (simp_all add: ending_def mapFieldWarning_def listFieldWarning_def
      trailingSlashWarning_def bodyDeclaredWarning_def noBodyWarning_def)

lemma not_mismatch_fieldWarnings:
  "l \<in> set (fieldWarnings env v flds segs) \<Longrightarrow> ending l = [CHR 0x0A, CHR ''.'', CHR ''p''] \<or> ending l = [CHR 0x0A, CHR ''.'', CHR ''t'']"
  by (induction env v flds segs rule: fieldWarnings.induct)
     (auto simp: ending_simps split: option.splits if_splits)

lemma isMismatchWarning_ending:
  "isMismatchWarning rule l \<Longrightarrow> ending l = [CHR 0x0A, CHR ''.'', CHR ''d''] \<or> ending l = [CHR 0x0A, CHR ''.'', CHR ''y'']"
  by (auto simp: isMismatchWarning_def ending_simps)

lemma not_mismatch_before:
  assumes "l \<in> set (fst (buildPathParams path) @ concat (map (placeholderWarnings env m) ord))"
  shows "\<not> isMismatchWarning rule l"
proof
  assume mm: "isMismatchWarning rule l"
  from assms consider "l \<in> set (fst (buildPathParams path))"
    | p where "p \<in> set ord" "l \<in> set (placeholderWarnings env m p)" by auto
  then show False
  proof cases
    case 1
    then have "ending l = [CHR 0x0A, CHR '' '', CHR 0x22]"
      by (auto simp: buildPathParams_def ending_simps split: if_splits)
    with isMismatchWarning_ending [OF mm] show False by auto
  next
    case 2
    from not_mismatch_fieldWarnings [OF 2(2) [unfolded placeholderWarnings_def]]
      isMismatchWarning_ending [OF mm] show False by auto
  qed
qed


subsection \<open>buildHTTPRule: errors, warnings and the descriptor\<close>

lemma buildMethodDesc_builds:
  assumes "builds env visit m path"
  shows "\<exists>w tp. transformPath (rewritePath visit path) = Inr tp \<and> list_all isWarning w
          \<and> (\<forall>l\<in>set w. \<not> isMismatchWarning rule l)
          \<and> buildMethodDesc env visit ms m method path =
               (w, Returned (newMethodDesc env ms m method path (rewritePath visit path) tp,
                             ms(m_GoName m := ms (m_GoName m) + 1)))"
proof -
  from assms have nm: "\<not> list_ex (placeholderMissing env m) (visit (snd (buildPathParams path)))"
    and np: "\<not> isl (transformPath (rewritePath visit path))" by (simp_all add: builds_def)
  from np obtain tp where tp: "transformPath (rewritePath visit path) = Inr tp"
    by (cases "transformPath (rewritePath visit path)") auto
  let ?w = "fst (buildPathParams path) @ concat (map (placeholderWarnings env m) (visit (snd (buildPathParams path))))"
  have "buildMethodDesc env visit ms m method path =
          (?w, Returned (newMethodDesc env ms m method path (rewritePath visit path) tp,
                         ms(m_GoName m := ms (m_GoName m) + 1)))"
    by (simp add: buildMethodDesc_found [of env m visit path, OF nm] tp)
  moreover have "list_all isWarning ?w" by simp
  moreover have "\<forall>l\<in>set ?w. \<not> isMismatchWarning rule l"
    using not_mismatch_before by blast
  ultimately show ?thesis using tp by blast
qed







subsection \<open>buildHTTPRule: mismatch warnings and the body selectors\<close>

lemma buildHTTPRule_builds:
  assumes "builds env visit m (rulePath rule)"
  shows "\<exists>w tp. transformPath (rewritePath visit (rulePath rule)) = Inr tp
          \<and> (\<forall>l\<in>set w. \<not> isMismatchWarning rule l)
          \<and> list_all isWarning w
          \<and> buildHTTPRule env visit ms m rule =
               (w @ mismatchWarnings (ruleMethod rule) (rulePath rule) (rule_Body rule),
                Returned (finishRule rule
                            (newMethodDesc env ms m (ruleMethod rule) (rulePath rule)
                               (rewritePath visit (rulePath rule)) tp),
                          ms(m_GoName m := ms (m_GoName m) + 1)))"
proof -
  from buildMethodDesc_builds [OF assms, of rule ms "ruleMethod rule"] obtain w tp where
    tp: "transformPath (rewritePath visit (rulePath rule)) = Inr tp" and
    a: "list_all isWarning w" and
    n: "\<forall>l\<in>set w. \<not> isMismatchWarning rule l" and
    b: "buildMethodDesc env visit ms m (ruleMethod rule) (rulePath rule) =
          (w, Returned (newMethodDesc env ms m (ruleMethod rule) (rulePath rule)
                          (rewritePath visit (rulePath rule)) tp,
                        ms(m_GoName m := ms (m_GoName m) + 1)))"
    by blast
  have "buildHTTPRule env visit ms m rule =
          (w @ mismatchWarnings (ruleMethod rule) (rulePath rule) (rule_Body rule),
           Returned (finishRule rule
                       (newMethodDesc env ms m (ruleMethod rule) (rulePath rule)
                          (rewritePath visit (rulePath rule)) tp),
                     ms(m_GoName m := ms (m_GoName m) + 1)))"
    by (simp add: buildHTTPRule_eq b)
  with tp a n show ?thesis by blast
qed

lemma finishRule_Method:
  "finishRule rule' (newMethodDesc env ms m method' path path' tp)
     = (finishRule rule' (newMethodDesc env ms m method path path' tp))\<lparr>Method := method'\<rparr>"
  by (simp add: finishRule_def newMethodDesc_def setBody_def setResponseBody_def)

lemma finishRule_cong:
  "rulePath rule' = rulePath rule \<Longrightarrow> rule_Body rule' = rule_Body rule \<Longrightarrow>
   rule_ResponseBody rule' = rule_ResponseBody rule \<Longrightarrow> finishRule rule' md = finishRule rule md"
  by (simp add: finishRule_def)

text \<open>
  C3 (as amended). For every HTTP rule whose placeholders all name fields that are found
  (and on whose rewritten path transformPath gets through), buildHTTPRule returns a
  method descriptor, and one of the two warnings about the rule and its method is among
  the lines it has printed exactly when (i) the method is GET or DELETE and the body is
  not empty or (ii) the method is neither and the body is empty. The descriptor does not
  depend on the warning: for any rule with the same path, body and response body, and so
  for one whose method does not mismatch, the descriptor is the same up to Method.
\<close>

theorem buildHTTPRule_mismatch_warning:
  assumes "builds env visit m (rulePath rule)"
  shows "(\<exists>md ms'. snd (buildHTTPRule env visit ms m rule) = Returned (md, ms'))
       \<and> (list_ex (isMismatchWarning rule) (fst (buildHTTPRule env visit ms m rule)) \<longleftrightarrow> ruleMismatch rule)
       \<and> (\<forall>rule'. rulePath rule' = rulePath rule \<and> rule_Body rule' = rule_Body rule
                   \<and> rule_ResponseBody rule' = rule_ResponseBody rule \<longrightarrow>
            (\<exists>md ms'. snd (buildHTTPRule env visit ms m rule) = Returned (md, ms')
                     \<and> snd (buildHTTPRule env visit ms m rule') = Returned (md\<lparr>Method := ruleMethod rule'\<rparr>, ms')))"
proof (intro conjI allI impI)
  from buildHTTPRule_builds [OF assms, of ms] obtain w tp where
    tp: "transformPath (rewritePath visit (rulePath rule)) = Inr tp" and
    n: "\<forall>l\<in>set w. \<not> isMismatchWarning rule l" and
    r: "buildHTTPRule env visit ms m rule =
          (w @ mismatchWarnings (ruleMethod rule) (rulePath rule) (rule_Body rule),
           Returned (finishRule rule
                       (newMethodDesc env ms m (ruleMethod rule) (rulePath rule)
                          (rewritePath visit (rulePath rule)) tp),
                     ms(m_GoName m := ms (m_GoName m) + 1)))"
    by blast
  show "\<exists>md ms'. snd (buildHTTPRule env visit ms m rule) = Returned (md, ms')"
    by (simp add: r)
  show "list_ex (isMismatchWarning rule) (fst (buildHTTPRule env visit ms m rule)) \<longleftrightarrow> ruleMismatch rule"
  proof
    assume "list_ex (isMismatchWarning rule) (fst (buildHTTPRule env visit ms m rule))"
    then obtain l where l: "l \<in> set w \<union> set (mismatchWarnings (ruleMethod rule) (rulePath rule) (rule_Body rule))"
      and mm: "isMismatchWarning rule l" by (auto simp: r list_ex_iff)
    from l mm n have "mismatchWarnings (ruleMethod rule) (rulePath rule) (rule_Body rule) \<noteq> []" by auto
    then show "ruleMismatch rule" by (simp add: mismatchWarnings_iff)
  next
    assume "ruleMismatch rule"
    then have "mismatchWarnings (ruleMethod rule) (rulePath rule) (rule_Body rule) \<noteq> []"
      by (simp add: mismatchWarnings_iff)
    then obtain l where l: "l \<in> set (mismatchWarnings (ruleMethod rule) (rulePath rule) (rule_Body rule))"
      by (cases "mismatchWarnings (ruleMethod rule) (rulePath rule) (rule_Body rule)") auto
    with set_mismatchWarnings [OF l] show "list_ex (isMismatchWarning rule) (fst (buildHTTPRule env visit ms m rule))"
      by (auto simp: r list_ex_iff)
  qed
  fix rule'
  assume eq: "rulePath rule' = rulePath rule \<and> rule_Body rule' = rule_Body rule
                \<and> rule_ResponseBody rule' = rule_ResponseBody rule"
  then have b': "builds env visit m (rulePath rule')" using assms by simp
  from buildHTTPRule_builds [OF b', of ms] eq tp obtain w' where
    r': "buildHTTPRule env visit ms m rule' =
          (w' @ mismatchWarnings (ruleMethod rule') (rulePath rule') (rule_Body rule'),
           Returned (finishRule rule'
                       (newMethodDesc env ms m (ruleMethod rule') (rulePath rule)
                          (rewritePath visit (rulePath rule)) tp),
                     ms(m_GoName m := ms (m_GoName m) + 1)))"
    by auto
  have "finishRule rule' (newMethodDesc env ms m (ruleMethod rule') (rulePath rule) (rewritePath visit (rulePath rule)) tp)
        = (finishRule rule (newMethodDesc env ms m (ruleMethod rule) (rulePath rule) (rewritePath visit (rulePath rule)) tp))
            \<lparr>Method := ruleMethod rule'\<rparr>"
    using eq finishRule_Method [of rule' env ms m "ruleMethod rule'" "rulePath rule" _ tp "ruleMethod rule"]
    by (simp add: finishRule_cong [of rule' rule])
  then show "\<exists>md ms'. snd (buildHTTPRule env visit ms m rule) = Returned (md, ms')
                     \<and> snd (buildHTTPRule env visit ms m rule') = Returned (md\<lparr>Method := ruleMethod rule'\<rparr>, ms')"
    by (simp add: r r')
qed


lemma rule_fields_GetPost:
  "rulePath rulePostWithBody = rulePath ruleGetWithBody \<and> rule_Body rulePostWithBody = rule_Body ruleGetWithBody
    \<and> rule_ResponseBody rulePostWithBody = rule_ResponseBody ruleGetWithBody"
  by (simp add: rulePostWithBody_def ruleGetWithBody_def rulePath_def)

theorem buildHTTPRule_mismatch_warning_witness:
  "list_ex (isMismatchWarning ruleGetWithBody)
     (fst (buildHTTPRule exampleEnv inOrder noMethodSets (exampleMethod None) ruleGetWithBody))
   \<and> (\<exists>md ms'. snd (buildHTTPRule exampleEnv inOrder noMethodSets (exampleMethod None) ruleGetWithBody) = Returned (md, ms')
         \<and> snd (buildHTTPRule exampleEnv inOrder noMethodSets (exampleMethod None) rulePostWithBody)
              = Returned (md\<lparr>Method := ''POST''\<rparr>, ms'))
   \<and> \<not> list_ex (isMismatchWarning rulePostWithBody)
     (fst (buildHTTPRule exampleEnv inOrder noMethodSets (exampleMethod None) rulePostWithBody))"
proof -
  have b: "builds exampleEnv inOrder (exampleMethod None) (rulePath ruleGetWithBody)" by code_simp
  have b': "builds exampleEnv inOrder (exampleMethod None) (rulePath rulePostWithBody)" by code_simp
  have mm: "ruleMismatch ruleGetWithBody" by code_simp
  have mm': "\<not> ruleMismatch rulePostWithBody" by code_simp
  have me: "ruleMethod rulePostWithBody = ''POST''" by code_simp
  note A = buildHTTPRule_mismatch_warning [OF b, of noMethodSets]
  note B = buildHTTPRule_mismatch_warning [OF b', of noMethodSets]
  from A mm have 1: "list_ex (isMismatchWarning ruleGetWithBody)
     (fst (buildHTTPRule exampleEnv inOrder noMethodSets (exampleMethod None) ruleGetWithBody))" by blast
  from A rule_fields_GetPost me have 2: "\<exists>md ms'. snd (buildHTTPRule exampleEnv inOrder noMethodSets (exampleMethod None) ruleGetWithBody) = Returned (md, ms')
         \<and> snd (buildHTTPRule exampleEnv inOrder noMethodSets (exampleMethod None) rulePostWithBody)
              = Returned (md\<lparr>Method := ''POST''\<rparr>, ms')" by metis
  from B mm' have 3: "\<not> list_ex (isMismatchWarning rulePostWithBody)
     (fst (buildHTTPRule exampleEnv inOrder noMethodSets (exampleMethod None) rulePostWithBody))" by blast
  from 1 2 3 show ?thesis by blast
qed

theorem buildHTTPRule_no_warning_on_exit_counterexample:
  "ruleMismatch ruleGetMissingField
   \<and> \<not> list_ex (isMismatchWarning ruleGetMissingField)
         (fst (buildHTTPRule exampleEnv inOrder noMethodSets (exampleMethod None) ruleGetMissingField))
   \<and> exitCode (snd (buildHTTPRule exampleEnv inOrder noMethodSets (exampleMethod None) ruleGetMissingField)) = Some 2
   \<and> returned (snd (buildHTTPRule exampleEnv inOrder noMethodSets (exampleMethod None) ruleGetMissingField)) = None"
  by code_simp

lemma buildMethodDesc_Returned:
  assumes "buildMethodDesc env visit ms m method path = (w, Returned (md, ms'))"
  shows "\<exists>path' tp. md = newMethodDesc env ms m method path path' tp
           \<and> ms' = ms(m_GoName m := ms (m_GoName m) + 1)"
  using assms
  by (auto simp: buildMethodDesc_eq split: prod.splits outcome.splits sum.splits)

lemma buildHTTPRule_Returned:
  assumes "snd (buildHTTPRule env visit ms m rule) = Returned (md, ms')"
  shows "\<exists>path' tp. md = finishRule rule (newMethodDesc env ms m (ruleMethod rule) (rulePath rule) path' tp)
           \<and> ms' = ms(m_GoName m := ms (m_GoName m) + 1)"
proof -
  obtain w r where b: "buildMethodDesc env visit ms m (ruleMethod rule) (rulePath rule) = (w, r)"
    by (cases "buildMethodDesc env visit ms m (ruleMethod rule) (rulePath rule)")
  show ?thesis
  proof (cases r)
    case (Returned x)
    obtain md0 ms0 where x: "x = (md0, ms0)" by (cases x)
    from buildMethodDesc_Returned [OF b [unfolded Returned x]] obtain path' tp where
      "md0 = newMethodDesc env ms m (ruleMethod rule) (rulePath rule) path' tp"
      "ms0 = ms(m_GoName m := ms (m_GoName m) + 1)" by blast
    with assms b Returned x show ?thesis by (auto simp: buildHTTPRule_eq)
  next
    case (Exited c)
    with assms b show ?thesis by (simp add: buildHTTPRule_eq)
  next
    case (Panicked e)
    with assms b show ?thesis by (simp add: buildHTTPRule_eq)
  qed
qed

text \<open>
  C4. For every HTTP rule, the descriptor buildHTTPRule returns classifies the body
  selector: body \<open>*\<close> gives HasBody = true and Body = ""; a body that is neither empty
  nor \<open>*\<close> gives HasBody = true and Body = "." followed by the camel-cased
  dot-separated field path; an empty body gives HasBody = false (and Body = ""). In the
  same way responseBody \<open>*\<close> gives ResponseBody = "", a responseBody that is neither
  empty nor \<open>*\<close> gives "." followed by the camel-cased path, and an empty one gives
  ResponseBody = "".
\<close>

theorem buildHTTPRule_body_classification:
  assumes "snd (buildHTTPRule env visit ms m rule) = Returned (md, ms')"
  shows "(rule_Body rule = ''*'' \<longrightarrow> HasBody md \<and> Body md = [])
       \<and> (rule_Body rule \<noteq> [] \<and> rule_Body rule \<noteq> ''*'' \<longrightarrow>
            HasBody md \<and> Body md = ''.'' @ camelCaseVars (rule_Body rule))
       \<and> (rule_Body rule = [] \<longrightarrow> \<not> HasBody md \<and> Body md = [])
       \<and> (rule_ResponseBody rule = ''*'' \<longrightarrow> ResponseBody md = [])
       \<and> (rule_ResponseBody rule \<noteq> [] \<and> rule_ResponseBody rule \<noteq> ''*'' \<longrightarrow>
            ResponseBody md = ''.'' @ camelCaseVars (rule_ResponseBody rule))
       \<and> (rule_ResponseBody rule = [] \<longrightarrow> ResponseBody md = [])"
proof -
  from buildHTTPRule_Returned [OF assms] obtain path' tp where
    md: "md = finishRule rule (newMethodDesc env ms m (ruleMethod rule) (rulePath rule) path' tp)"
    by blast
  show ?thesis
    by (simp add: md finishRule_def setBody_def setResponseBody_def newMethodDesc_def)
qed

theorem buildHTTPRule_body_classification_witness:
  "\<exists>md ms'. snd (buildHTTPRule exampleEnv inOrder noMethodSets (exampleMethod None) ruleGetWithBody) = Returned (md, ms')
      \<and> HasBody md \<and> Body md = ''.UserInfo.FirstName'' \<and> ResponseBody md = []"
proof -
  have b: "builds exampleEnv inOrder (exampleMethod None) (rulePath ruleGetWithBody)" by code_simp
  from buildHTTPRule_builds [OF b, of noMethodSets] obtain md ms' where
    r: "snd (buildHTTPRule exampleEnv inOrder noMethodSets (exampleMethod None) ruleGetWithBody) = Returned (md, ms')"
    by auto
  have body: "rule_Body ruleGetWithBody = ''user_info.first_name''"
    and rb: "rule_ResponseBody ruleGetWithBody = ''*''" by (simp_all add: ruleGetWithBody_def)
  have cc: "camelCaseVars ''user_info.first_name'' = ''UserInfo.FirstName''" by code_simp
  from buildHTTPRule_body_classification [OF r] body rb cc
  have "HasBody md \<and> Body md = ''.UserInfo.FirstName'' \<and> ResponseBody md = []" by simp
  with r show ?thesis by blast
qed


subsection \<open>buildMethodDesc and the counter methodSets\<close>


text \<open>
  The order of the visit matters: the name of a path parameter goes into the expression
  of replacePath as it is, so the dot of \<open>a.b\<close> matches the \<open>x\<close> of \<open>{axb=foo}\<close> when
  \<open>a.b\<close> is visited first.
\<close>

lemma buildMethodDesc_visit_order:
  "map_option (ClientPath \<circ> fst)
     (returned (snd (buildMethodDesc exampleEnv inOrder noMethodSets wildcardMethod ''GET''
                       ''/{axb=foo}/{a.b=bar}''))) = Some ''/axb:foo/a.b:bar''
   \<and> map_option (ClientPath \<circ> fst)
     (returned (snd (buildMethodDesc exampleEnv reversed noMethodSets wildcardMethod ''GET''
                       ''/{axb=foo}/{a.b=bar}''))) = Some ''/a.b:bar/{a.b=bar}''
   \<and> visitsAll reversed ''/{axb=foo}/{a.b=bar}''"
  by code_simp






subsection \<open>genService: the descriptors of a service\<close>

lemma builtDesc_fields:
  assumes "builtDesc env visit ms m rule = Some md"
  shows "Name md = m_GoName m" "OriginalName md = m_Name m" "Num md = ms (m_GoName m)"
    "Method md = ruleMethod rule" "PathParams md = extractPathParams (rulePath rule)"
proof -
  from assms obtain ms' where "snd (buildHTTPRule env visit ms m rule) = Returned (md, ms')"
    by (cases "snd (buildHTTPRule env visit ms m rule)") (auto simp: builtDesc_def)
  from buildHTTPRule_Returned [OF this] obtain path' tp where
    md: "md = finishRule rule (newMethodDesc env ms m (ruleMethod rule) (rulePath rule) path' tp)"
    by blast
  show "Name md = m_GoName m" "OriginalName md = m_Name m" "Num md = ms (m_GoName m)"
    "Method md = ruleMethod rule" "PathParams md = extractPathParams (rulePath rule)"
    by (simp_all add: md finishRule_def setBody_def setResponseBody_def newMethodDesc_def)
qed

lemma buildHTTPRule_Returned_builtDesc:
  assumes "buildHTTPRule env visit ms m rule = (w, Returned (md, ms'))"
  shows "builtDesc env visit ms m rule = Some md" "ms' = ms(m_GoName m := ms (m_GoName m) + 1)"
proof -
  from assms have s: "snd (buildHTTPRule env visit ms m rule) = Returned (md, ms')" by simp
  then show "builtDesc env visit ms m rule = Some md" by (simp add: builtDesc_def)
  from buildHTTPRule_Returned [OF s] show "ms' = ms(m_GoName m := ms (m_GoName m) + 1)" by blast
qed

lemma bindingsLoop_Returned:
  assumes "bindingsLoop env visits j ms m binds = (w, Returned (mds, ms'))"
  shows "length mds = length binds
       \<and> ms' = ms(m_GoName m := ms (m_GoName m) + length binds)
       \<and> (\<forall>k<length binds.
            builtDesc env (visits (j + k)) (ms(m_GoName m := ms (m_GoName m) + k)) m (binds ! k)
              = Some (mds ! k))"
  using assms
proof (induction binds arbitrary: j ms w mds)
  case Nil
  then show ?case by simp
next
  case (Cons b bs)
  obtain w1 r1 where b1: "buildHTTPRule env (visits j) ms m b = (w1, r1)"
    by (cases "buildHTTPRule env (visits j) ms m b")
  from Cons.prems b1 obtain md ms1 where r1: "r1 = Returned (md, ms1)"
    by (cases r1) (auto split: prod.splits)
  obtain w2 r2 where b2: "bindingsLoop env visits (Suc j) ms1 m bs = (w2, r2)"
    by (cases "bindingsLoop env visits (Suc j) ms1 m bs")
  from Cons.prems b1 r1 b2 obtain mds' where r2: "r2 = Returned (mds', ms')" and mds: "mds = md # mds'"
    by (cases r2) (auto split: prod.splits)
  note h = buildHTTPRule_Returned_builtDesc [OF b1 [unfolded r1]]
  from Cons.IH [OF b2 [unfolded r2]] have
    len: "length mds' = length bs" and
    st: "ms' = ms1(m_GoName m := ms1 (m_GoName m) + length bs)" and
    el: "\<forall>k<length bs. builtDesc env (visits (Suc j + k)) (ms1(m_GoName m := ms1 (m_GoName m) + k)) m (bs ! k)
            = Some (mds' ! k)" by blast+
  have upd: "ms1(m_GoName m := ms1 (m_GoName m) + k) = ms(m_GoName m := ms (m_GoName m) + Suc k)" for k
    by (simp add: h(2))
  have all: "\<forall>k<length (b # bs).
            builtDesc env (visits (j + k)) (ms(m_GoName m := ms (m_GoName m) + k)) m ((b # bs) ! k)
              = Some (mds ! k)"
  proof (intro allI impI)
    fix k assume k: "k < length (b # bs)"
    show "builtDesc env (visits (j + k)) (ms(m_GoName m := ms (m_GoName m) + k)) m ((b # bs) ! k) = Some (mds ! k)"
    proof (cases k)
      case 0
      then show ?thesis using h(1) by (simp add: mds)
    next
      case (Suc k')
      with k have "k' < length bs" by simp
      with el have "builtDesc env (visits (Suc j + k')) (ms1(m_GoName m := ms1 (m_GoName m) + k')) m (bs ! k')
            = Some (mds' ! k')" by blast
      then have "builtDesc env (visits (Suc j + k')) (ms(m_GoName m := ms (m_GoName m) + Suc k')) m (bs ! k')
            = Some (mds' ! k')" by (simp only: upd)
      then show ?thesis by (simp add: mds Suc)
    qed
  qed
  have l: "length mds = length (b # bs)" using len by (simp add: mds)
  have "ms' = ms(m_GoName m := ms (m_GoName m) + Suc (length bs))"
    using st by (simp only: upd)
  then have s: "ms' = ms(m_GoName m := ms (m_GoName m) + length (b # bs))" by simp
  from l s all show ?case by blast
qed

lemma bindingsLoop_builds:
  assumes "rulesBuild env visits j m binds"
  shows "\<exists>w mds ms'. bindingsLoop env visits j ms m binds = (w, Returned (mds, ms'))"
  using assms
proof (induction binds arbitrary: j ms)
  case Nil
  then show ?case by simp
next
  case (Cons b bs)
  from Cons.prems have b: "builds env (visits j) m (rulePath b)" and bs: "rulesBuild env visits (Suc j) m bs"
    by simp_all
  from buildHTTPRule_builds [OF b, of ms] obtain w md ms1 where
    1: "buildHTTPRule env (visits j) ms m b = (w, Returned (md, ms1))" by blast
  from Cons.IH [OF bs, of ms1] obtain w' mds ms' where
    2: "bindingsLoop env visits (Suc j) ms1 m bs = (w', Returned (mds, ms'))" by blast
  show ?case by (simp add: 1 2)
qed


lemma rulesBuild_append:
  "rulesBuild env visits j m (xs @ ys)
     = (rulesBuild env visits j m xs \<and> rulesBuild env visits (j + length xs) m ys)"
  by (induction xs arbitrary: j) auto

lemma methodDescs_rule_eq:
  assumes "hasRule m rule"
  shows "methodDescs env visits ms service omitempty m =
     (case bindingsLoop env visits 0 ms m (rule_AdditionalBindings rule) of
        (w, Returned (mds, ms')) \<Rightarrow>
          (case buildHTTPRule env (visits (length (rule_AdditionalBindings rule))) ms' m rule of
             (w', Returned (md, ms'')) \<Rightarrow> (w @ w', Returned (mds @ [md], ms''))
           | (w', Exited c) \<Rightarrow> (w @ w', Exited c)
           | (w', Panicked e) \<Rightarrow> (w @ w', Panicked e))
      | (w, Exited c) \<Rightarrow> (w, Exited c)
      | (w, Panicked e) \<Rightarrow> (w, Panicked e))"
  using assms
  by (simp add: methodDescs_def hasRule_def andThen_def split: prod.splits outcome.splits)

lemma methodDescs_rule_Returned:
  assumes r: "methodDescs env visits ms service omitempty m = (w, Returned (mds, ms'))"
    and h: "hasRule m rule"
  shows "length mds = length (rule_AdditionalBindings rule) + 1
       \<and> ms' = ms(m_GoName m := ms (m_GoName m) + (length (rule_AdditionalBindings rule) + 1))
       \<and> (\<forall>k\<le>length (rule_AdditionalBindings rule).
            builtDesc env (visits k) (ms(m_GoName m := ms (m_GoName m) + k)) m
               ((rule_AdditionalBindings rule @ [rule]) ! k) = Some (mds ! k))"
proof -
  let ?binds = "rule_AdditionalBindings rule"
  let ?N = "length ?binds"
  let ?g = "m_GoName m"
  obtain w1 r1 where b1: "bindingsLoop env visits 0 ms m ?binds = (w1, r1)"
    by (cases "bindingsLoop env visits 0 ms m ?binds")
  from r b1 obtain mds0 ms0 where r1: "r1 = Returned (mds0, ms0)"
    by (cases r1) (auto simp: methodDescs_rule_eq [OF h] split: prod.splits)
  obtain w2 r2 where b2: "buildHTTPRule env (visits ?N) ms0 m rule = (w2, r2)"
    by (cases "buildHTTPRule env (visits ?N) ms0 m rule")
  from r b1 r1 b2 obtain md where r2: "r2 = Returned (md, ms')" and mds: "mds = mds0 @ [md]"
    by (cases r2) (auto simp: methodDescs_rule_eq [OF h] split: prod.splits)
  from bindingsLoop_Returned [OF b1 [unfolded r1]] have
    len: "length mds0 = ?N" and st: "ms0 = ms(?g := ms ?g + ?N)" and
    el: "\<forall>k<?N. builtDesc env (visits (0 + k)) (ms(?g := ms ?g + k)) m (?binds ! k) = Some (mds0 ! k)"
    by blast+
  note last = buildHTTPRule_Returned_builtDesc [OF b2 [unfolded r2]]
  have l: "length mds = ?N + 1" by (simp add: mds len)
  have s: "ms' = ms(?g := ms ?g + (?N + 1))" by (simp add: last(2) st)
  have e: "\<forall>k\<le>?N. builtDesc env (visits k) (ms(?g := ms ?g + k)) m ((?binds @ [rule]) ! k) = Some (mds ! k)"
  proof (intro allI impI)
    fix k assume "k \<le> ?N"
    then consider "k < ?N" | "k = ?N" by linarith
    then show "builtDesc env (visits k) (ms(?g := ms ?g + k)) m ((?binds @ [rule]) ! k) = Some (mds ! k)"
    proof cases
      case 1
      with el have "builtDesc env (visits k) (ms(?g := ms ?g + k)) m (?binds ! k) = Some (mds0 ! k)"
        by simp
      with 1 show ?thesis by (simp add: mds nth_append len)
    next
      case 2
      with last(1) st show ?thesis by (simp add: mds nth_append len)
    qed
  qed
  from l s e show ?thesis by blast
qed


lemma methodDescs_builds:
  assumes "methodBuilds env visits service omitempty m"
  shows "\<exists>w mds ms'. methodDescs env visits ms service omitempty m = (w, Returned (mds, ms'))"
proof (cases "m_IsStreamingClient m \<or> m_IsStreamingServer m")
  case True
  then show ?thesis by (simp add: methodDescs_def)
next
  case ns: False
  show ?thesis
  proof (cases "m_HttpRule m")
    case None
    show ?thesis
    proof (cases omitempty)
      case True
      with ns None show ?thesis by (simp add: methodDescs_def)
    next
      case False
      with assms ns None have "builds env (visits 0) m (''/'' @ s_FullName service @ ''/'' @ m_Name m)"
        by (simp add: methodBuilds_def)
      from buildMethodDesc_builds [OF this, of undefined ms "''POST''"] obtain w md ms' where
        "buildMethodDesc env (visits 0) ms m ''POST'' (''/'' @ s_FullName service @ ''/'' @ m_Name m)
           = (w, Returned (md, ms'))" by blast
      with ns None False show ?thesis by (simp add: methodDescs_def andThen_def)
    qed
  next
    case (Some rule)
    with ns have h: "hasRule m rule" by (simp add: hasRule_def)
    from assms ns Some have
      b1: "rulesBuild env visits 0 m (rule_AdditionalBindings rule)" and
      b2: "builds env (visits (length (rule_AdditionalBindings rule))) m (rulePath rule)"
      by (simp_all add: methodBuilds_def rulesBuild_append)
    from bindingsLoop_builds [OF b1, of ms] obtain w1 mds ms1 where
      1: "bindingsLoop env visits 0 ms m (rule_AdditionalBindings rule) = (w1, Returned (mds, ms1))"
      by blast
    from buildHTTPRule_builds [OF b2, of ms1] obtain w2 md ms2 where
      2: "buildHTTPRule env (visits (length (rule_AdditionalBindings rule))) ms1 m rule
            = (w2, Returned (md, ms2))" by blast
    show ?thesis by (simp add: methodDescs_rule_eq [OF h] 1 2)
  qed
qed

lemma methodsLoop_Returned:
  assumes "methodsLoop env visits i ms service omitempty methods = (w, Returned (mds, ms'))"
  shows "\<exists>dss. mds = concat dss \<and> length dss = length methods
           \<and> (\<forall>k<length methods. \<exists>msk wk msk'.
                 methodDescs env (visits (i + k)) msk service omitempty (methods ! k)
                   = (wk, Returned (dss ! k, msk')))"
  using assms
proof (induction methods arbitrary: i ms w mds)
  case Nil
  then show ?case by simp
next
  case (Cons m rest)
  obtain w1 r1 where b1: "methodDescs env (visits i) ms service omitempty m = (w1, r1)"
    by (cases "methodDescs env (visits i) ms service omitempty m")
  from Cons.prems b1 obtain ds ms1 where r1: "r1 = Returned (ds, ms1)"
    by (cases r1) (auto split: prod.splits)
  obtain w2 r2 where b2: "methodsLoop env visits (Suc i) ms1 service omitempty rest = (w2, r2)"
    by (cases "methodsLoop env visits (Suc i) ms1 service omitempty rest")
  from Cons.prems b1 r1 b2 obtain mds' where r2: "r2 = Returned (mds', ms')" and mds: "mds = ds @ mds'"
    by (cases r2) (auto split: prod.splits)
  from Cons.IH [OF b2 [unfolded r2]] obtain dss where
    c: "mds' = concat dss" and len: "length dss = length rest" and
    el: "\<forall>k<length rest. \<exists>msk wk msk'.
           methodDescs env (visits (Suc i + k)) msk service omitempty (rest ! k)
             = (wk, Returned (dss ! k, msk'))" by blast
  have "\<forall>k<length (m # rest). \<exists>msk wk msk'.
           methodDescs env (visits (i + k)) msk service omitempty ((m # rest) ! k)
             = (wk, Returned ((ds # dss) ! k, msk'))"
  proof (intro allI impI)
    fix k assume k: "k < length (m # rest)"
    show "\<exists>msk wk msk'. methodDescs env (visits (i + k)) msk service omitempty ((m # rest) ! k)
             = (wk, Returned ((ds # dss) ! k, msk'))"
    proof (cases k)
      case 0
      with b1 r1 show ?thesis by auto
    next
      case (Suc k')
      with k el show ?thesis by auto
    qed
  qed
  moreover have "mds = concat (ds # dss)" by (simp add: mds c)
  moreover have "length (ds # dss) = length (m # rest)" by (simp add: len)
  ultimately show ?case by blast
qed

lemma methodsLoop_builds:
  assumes "methodsBuild env visits i service omitempty methods"
  shows "\<exists>w mds ms'. methodsLoop env visits i ms service omitempty methods = (w, Returned (mds, ms'))"
  using assms
proof (induction methods arbitrary: i ms)
  case Nil
  then show ?case by simp
next
  case (Cons m rest)
  from Cons.prems have b: "methodBuilds env (visits i) service omitempty m"
    and bs: "methodsBuild env visits (Suc i) service omitempty rest" by simp_all
  from methodDescs_builds [OF b, of ms] obtain w ds ms1 where
    1: "methodDescs env (visits i) ms service omitempty m = (w, Returned (ds, ms1))" by blast
  from Cons.IH [OF bs, of ms1] obtain w' mds ms' where
    2: "methodsLoop env visits (Suc i) ms1 service omitempty rest = (w', Returned (mds, ms'))" by blast
  show ?case by (simp add: 1 2)
qed


lemma genServiceDesc_eq:
  "genServiceDesc env visits ms filePath service omitempty =
     (case methodsLoop env visits 0 ms service omitempty (s_Methods service) of
        (w, Returned (mds, ms')) \<Rightarrow>
          (w, Returned (\<lparr>ServiceType = s_GoName service, ServiceName = s_FullName service,
                         Metadata = filePath, Methods = mds, MethodSets = []\<rparr>, ms'))
      | (w, Exited c) \<Rightarrow> (w, Exited c)
      | (w, Panicked e) \<Rightarrow> (w, Panicked e))"
  by (simp add: genServiceDesc_def andThen_def split: prod.splits outcome.splits)

text \<open>
  C5 (as amended). When genService gets through a service (no placeholder of a rule it
  builds names a field that cannot be found, which would end the run with status 2, and
  transformPath gets through every rewritten path), the descriptors it has appended are,
  method by method, these: for every non-streaming method whose HTTP rule has N
  additional bindings exactly N+1 descriptors, one per additional binding, in order,
  followed by one for the rule itself. Each is the descriptor buildHTTPRule returns for
  that binding, with the counter of the method's Go name one higher each time; so the
  list of their methods and of their path parameters is that of the bindings followed
  by the rule.
\<close>

theorem genService_one_descriptor_per_binding:
  assumes "serviceBuilds env visits service omitempty"
  shows "\<exists>w sd ms' dss.
           genServiceDesc env visits ms filePath service omitempty = (w, Returned (sd, ms'))
         \<and> Methods sd = concat dss \<and> length dss = length (s_Methods service)
         \<and> (\<forall>i<length (s_Methods service). \<forall>rule. hasRule (s_Methods service ! i) rule \<longrightarrow>
               length (dss ! i) = length (rule_AdditionalBindings rule) + 1
             \<and> map Method (dss ! i) = map ruleMethod (rule_AdditionalBindings rule @ [rule])
             \<and> map PathParams (dss ! i)
                 = map (\<lambda>r. extractPathParams (rulePath r)) (rule_AdditionalBindings rule @ [rule])
             \<and> (\<exists>msi. \<forall>k\<le>length (rule_AdditionalBindings rule).
                    builtDesc env (visits i k)
                      (msi(m_GoName (s_Methods service ! i) := msi (m_GoName (s_Methods service ! i)) + k))
                      (s_Methods service ! i) ((rule_AdditionalBindings rule @ [rule]) ! k)
                    = Some (dss ! i ! k)))"
proof -
  let ?ms = "s_Methods service"
  from assms have "methodsBuild env visits 0 service omitempty ?ms" by (simp add: serviceBuilds_def)
  from methodsLoop_builds [OF this, of ms] obtain w mds ms' where
    l: "methodsLoop env visits 0 ms service omitempty ?ms = (w, Returned (mds, ms'))" by blast
  from methodsLoop_Returned [OF l] obtain dss where
    c: "mds = concat dss" and len: "length dss = length ?ms" and
    el: "\<forall>k<length ?ms. \<exists>msk wk msk'.
           methodDescs env (visits (0 + k)) msk service omitempty (?ms ! k) = (wk, Returned (dss ! k, msk'))"
    by blast
  let ?sd = "\<lparr>ServiceType = s_GoName service, ServiceName = s_FullName service,
              Metadata = filePath, Methods = mds, MethodSets = []\<rparr>"
  have g: "genServiceDesc env visits ms filePath service omitempty = (w, Returned (?sd, ms'))"
    by (simp add: genServiceDesc_eq l)
  have "\<forall>i<length ?ms. \<forall>rule. hasRule (?ms ! i) rule \<longrightarrow>
               length (dss ! i) = length (rule_AdditionalBindings rule) + 1
             \<and> map Method (dss ! i) = map ruleMethod (rule_AdditionalBindings rule @ [rule])
             \<and> map PathParams (dss ! i)
                 = map (\<lambda>r. extractPathParams (rulePath r)) (rule_AdditionalBindings rule @ [rule])
             \<and> (\<exists>msi. \<forall>k\<le>length (rule_AdditionalBindings rule).
                    builtDesc env (visits i k) (msi(m_GoName (?ms ! i) := msi (m_GoName (?ms ! i)) + k))
                      (?ms ! i) ((rule_AdditionalBindings rule @ [rule]) ! k)
                    = Some (dss ! i ! k))"
  proof (intro allI impI)
    fix i rule
    assume i: "i < length ?ms" and h: "hasRule (?ms ! i) rule"
    let ?m = "?ms ! i"
    let ?rules = "rule_AdditionalBindings rule @ [rule]"
    from el i obtain msi wi msi' where
      r: "methodDescs env (visits i) msi service omitempty ?m = (wi, Returned (dss ! i, msi'))"
      by auto
    from methodDescs_rule_Returned [OF r h] have
      l1: "length (dss ! i) = length (rule_AdditionalBindings rule) + 1" and
      e1: "\<forall>k\<le>length (rule_AdditionalBindings rule).
             builtDesc env (visits i k) (msi(m_GoName ?m := msi (m_GoName ?m) + k)) ?m (?rules ! k)
               = Some (dss ! i ! k)" by blast+
    have l2: "length (dss ! i) = length ?rules" using l1 by simp
    have f: "Method (dss ! i ! k) = ruleMethod (?rules ! k)
           \<and> PathParams (dss ! i ! k) = extractPathParams (rulePath (?rules ! k))"
      if "k < length ?rules" for k
    proof -
      from that e1 have "builtDesc env (visits i k) (msi(m_GoName ?m := msi (m_GoName ?m) + k)) ?m (?rules ! k)
               = Some (dss ! i ! k)" by simp
      from builtDesc_fields(4,5) [OF this] show ?thesis by simp
    qed
    have m1: "map Method (dss ! i) = map ruleMethod ?rules"
    proof (rule nth_equalityI)
      show "length (map Method (dss ! i)) = length (map ruleMethod ?rules)" using l2 by simp
      fix k assume "k < length (map Method (dss ! i))"
      then have k: "k < length ?rules" and k': "k < length (dss ! i)" using l2 by simp_all
      from f [OF k] show "map Method (dss ! i) ! k = map ruleMethod ?rules ! k"
        by (simp only: nth_map [OF k] nth_map [OF k'])
    qed
    have m2: "map PathParams (dss ! i) = map (\<lambda>r. extractPathParams (rulePath r)) ?rules"
    proof (rule nth_equalityI)
      show "length (map PathParams (dss ! i)) = length (map (\<lambda>r. extractPathParams (rulePath r)) ?rules)"
        using l2 by simp
      fix k assume "k < length (map PathParams (dss ! i))"
      then have k: "k < length ?rules" and k': "k < length (dss ! i)" using l2 by simp_all
      from f [OF k] show "map PathParams (dss ! i) ! k = map (\<lambda>r. extractPathParams (rulePath r)) ?rules ! k"
        by (simp only: nth_map [OF k] nth_map [OF k'])
    qed
    from l1 m1 m2 e1 show "length (dss ! i) = length (rule_AdditionalBindings rule) + 1
             \<and> map Method (dss ! i) = map ruleMethod ?rules
             \<and> map PathParams (dss ! i) = map (\<lambda>r. extractPathParams (rulePath r)) ?rules
             \<and> (\<exists>msi. \<forall>k\<le>length (rule_AdditionalBindings rule).
                    builtDesc env (visits i k) (msi(m_GoName ?m := msi (m_GoName ?m) + k))
                      ?m (?rules ! k) = Some (dss ! i ! k))" by blast
  qed
  with g c len show ?thesis by (intro exI [of _ w] exI [of _ ?sd] exI [of _ ms'] exI [of _ dss]) simp
qed

theorem genService_one_descriptor_per_binding_witness:
  "\<exists>w sd ms'. genServiceDesc exampleEnv allInOrder noMethodSets ''users.proto''
                 (exampleService (Some ruleTwoBindings)) True = (w, Returned (sd, ms'))
       \<and> map Method (Methods sd) = [''POST'', ''GET'']
       \<and> map PathParams (Methods sd) = [[''id''], [''id'']]"
proof -
  let ?svc = "exampleService (Some ruleTwoBindings)"
  have b: "serviceBuilds exampleEnv allInOrder ?svc True" by code_simp
  have ms: "s_Methods ?svc = [exampleMethod (Some ruleTwoBindings)]" by (simp add: exampleService_def)
  have h: "hasRule (exampleMethod (Some ruleTwoBindings)) ruleTwoBindings"
    by (simp add: hasRule_def exampleMethod_def)
  have r1: "map ruleMethod (rule_AdditionalBindings ruleTwoBindings @ [ruleTwoBindings]) = [''POST'', ''GET'']"
    by code_simp
  have r2: "map (\<lambda>r. extractPathParams (rulePath r)) (rule_AdditionalBindings ruleTwoBindings @ [ruleTwoBindings])
              = [[''id''], [''id'']]" by code_simp
  from genService_one_descriptor_per_binding [OF b, of noMethodSets "''users.proto''"]
  obtain w sd ms' dss where
    g: "genServiceDesc exampleEnv allInOrder noMethodSets ''users.proto'' ?svc True = (w, Returned (sd, ms'))"
    and c: "Methods sd = concat dss" and len: "length dss = length (s_Methods ?svc)"
    and el: "\<forall>i<length (s_Methods ?svc). \<forall>rule. hasRule (s_Methods ?svc ! i) rule \<longrightarrow>
               length (dss ! i) = length (rule_AdditionalBindings rule) + 1
             \<and> map Method (dss ! i) = map ruleMethod (rule_AdditionalBindings rule @ [rule])
             \<and> map PathParams (dss ! i)
                 = map (\<lambda>r. extractPathParams (rulePath r)) (rule_AdditionalBindings rule @ [rule])
             \<and> (\<exists>msi. \<forall>k\<le>length (rule_AdditionalBindings rule).
                    builtDesc exampleEnv (allInOrder i k)
                      (msi(m_GoName (s_Methods ?svc ! i) := msi (m_GoName (s_Methods ?svc ! i)) + k))
                      (s_Methods ?svc ! i) ((rule_AdditionalBindings rule @ [rule]) ! k)
                    = Some (dss ! i ! k))"
    by blast
  from len ms obtain ds where dss: "dss = [ds]" by (cases dss) auto
  from el ms h have "map Method (dss ! 0) = map ruleMethod (rule_AdditionalBindings ruleTwoBindings @ [ruleTwoBindings])"
    and "map PathParams (dss ! 0)
                 = map (\<lambda>r. extractPathParams (rulePath r)) (rule_AdditionalBindings ruleTwoBindings @ [ruleTwoBindings])"
    by auto
  with r1 r2 c dss have m: "map Method (Methods sd) = [''POST'', ''GET'']"
    and p: "map PathParams (Methods sd) = [[''id''], [''id'']]" by simp_all
  show ?thesis
    by (rule exI [of _ w], rule exI [of _ sd], rule exI [of _ ms']) (simp add: g m p)
qed

theorem genService_exits_counterexample:
  "hasRule (exampleMethod (Some ruleBadBinding)) ruleBadBinding
   \<and> length (rule_AdditionalBindings ruleBadBinding) = 1
   \<and> exitCode (snd (genServiceDesc exampleEnv allInOrder noMethodSets ''users.proto''
                      (exampleService (Some ruleBadBinding)) True)) = Some 2
   \<and> returned (snd (genServiceDesc exampleEnv allInOrder noMethodSets ''users.proto''
                      (exampleService (Some ruleBadBinding)) True)) = None
   \<and> exitCode (snd (genService exampleEnv allInOrder noMethodSets ''users.proto'' []
                      (exampleService (Some ruleBadBinding)) True)) = Some 2"
  by code_simp


subsection \<open>The server template: operation names\<close>











lemma genServiceDesc_builds:
  assumes "serviceBuilds env visits service omitempty"
  shows "\<exists>w sd ms'. genServiceDesc env visits ms filePath service omitempty = (w, Returned (sd, ms'))"
proof -
  from assms have "methodsBuild env visits 0 service omitempty (s_Methods service)"
    by (simp add: serviceBuilds_def)
  from methodsLoop_builds [OF this, of ms] obtain w mds ms' where
    "methodsLoop env visits 0 ms service omitempty (s_Methods service) = (w, Returned (mds, ms'))"
    by blast
  then show ?thesis by (simp add: genServiceDesc_eq)
qed


subsection \<open>serviceDesc.execute: the three templates\<close>

lemma rev_dropWhile_takeWhile: "rev (dropWhile P (rev d)) @ rev (takeWhile P (rev d)) = d"
proof -
  have "rev (dropWhile P (rev d)) @ rev (takeWhile P (rev d))
          = rev (takeWhile P (rev d) @ dropWhile P (rev d))" by (simp only: rev_append)
  also have "\<dots> = rev (rev d)" by (simp only: takeWhile_dropWhile_id)
  finally show ?thesis by simp
qed

lemma strings_Trim_dropWhile:
  "dropWhile (\<lambda>c. c \<in> set cutset) s
     = strings_Trim s cutset
         @ rev (takeWhile (\<lambda>c. c \<in> set cutset) (rev (dropWhile (\<lambda>c. c \<in> set cutset) s)))"
  unfolding strings_Trim_def by (rule rev_dropWhile_takeWhile [symmetric])

lemma strings_Trim_decompose:
  "s = takeWhile (\<lambda>c. c \<in> set cutset) s @ strings_Trim s cutset
         @ rev (takeWhile (\<lambda>c. c \<in> set cutset) (rev (dropWhile (\<lambda>c. c \<in> set cutset) s)))"
proof -
  have "s = takeWhile (\<lambda>c. c \<in> set cutset) s @ dropWhile (\<lambda>c. c \<in> set cutset) s" by simp
  also have "dropWhile (\<lambda>c. c \<in> set cutset) s
     = strings_Trim s cutset
         @ rev (takeWhile (\<lambda>c. c \<in> set cutset) (rev (dropWhile (\<lambda>c. c \<in> set cutset) s)))"
    by (rule strings_Trim_dropWhile)
  finally show ?thesis .
qed

lemma strings_Trim_last:
  assumes "strings_Trim s cutset \<noteq> []"
  shows "last (strings_Trim s cutset) \<notin> set cutset"
proof -
  let ?P = "\<lambda>c. c \<in> set cutset"
  let ?e = "dropWhile ?P (rev (dropWhile ?P s))"
  from assms have ne: "?e \<noteq> []" by (simp add: strings_Trim_def)
  then have "\<not> ?P (hd ?e)" by (rule hd_dropWhile)
  moreover have "last (rev ?e) = hd ?e" using ne by (simp add: last_rev)
  ultimately show ?thesis by (simp add: strings_Trim_def)
qed

lemma strings_Trim_hd:
  assumes "strings_Trim s cutset \<noteq> []"
  shows "hd (strings_Trim s cutset) \<notin> set cutset"
proof -
  let ?P = "\<lambda>c. c \<in> set cutset"
  let ?d = "dropWhile ?P s"
  let ?t = "rev (takeWhile ?P (rev ?d))"
  have d: "?d = strings_Trim s cutset @ ?t" by (rule strings_Trim_dropWhile)
  have ne: "?d \<noteq> []"
  proof
    assume e: "?d = []"
    have "strings_Trim s cutset = rev (dropWhile ?P (rev ?d))" by (simp only: strings_Trim_def)
    also have "\<dots> = rev (dropWhile ?P (rev []))" by (simp only: e)
    also have "\<dots> = []" by simp
    finally show False using assms by simp
  qed
  then have "\<not> ?P (hd ?d)" by (rule hd_dropWhile)
  moreover have "hd (strings_Trim s cutset @ ?t) = hd (strings_Trim s cutset)"
    using assms by (rule hd_append2)
  ultimately show ?thesis using d by metis
qed

lemma renderServer_starts_with_LF: "\<exists>rest. renderServer env s = CHR 0x0A # rest"
  by (simp add: renderServer_def renderServerHead_def)


lemma genService_eq:
  assumes "genServiceDesc env visits ms filePath service omitempty = (w, Returned (sd, ms'))"
  shows "genService env visits ms filePath g service omitempty =
           (w, Returned ((if s_Deprecated service then g @ [''//'', deprecationComment] else g)
                           @ (if Methods sd \<noteq> [] then [execute env sd] else []), ms'))"
  using assms by (simp add: genService_def andThen_def)

text \<open>
  C7 (as amended). For every service with at least one method descriptor, genService
  prints one text: the concatenation, in order, of the three rendered templates (the
  server template, then the client template, then the template of the tagged structs,
  with an empty line between them), from whose start and end \<open>strings.Trim\<close> has
  removed the carriage returns and line feeds. Something is always removed at the start
  (the server template renders a line feed first), so the text printed is never the
  concatenation itself; what is left neither starts nor ends with such a byte.
\<close>

theorem execute_trims_three_templates:
  assumes "genServiceDesc env visits ms filePath service omitempty = (w, Returned (sd, ms'))"
    and "Methods sd \<noteq> []"
  shows "\<exists>printed pre suf.
           genService env visits ms filePath g service omitempty
             = (w, Returned (printed @ [execute env sd], ms'))
         \<and> renderServer env (setMethodSets sd) @ [CHR 0x0A, CHR 0x0A]
             @ renderClient env (setMethodSets sd) @ [CHR 0x0A, CHR 0x0A]
             @ renderTags env (setMethodSets sd)
             = pre @ execute env sd @ suf
         \<and> pre \<noteq> [] \<and> list_all isCRLF pre \<and> list_all isCRLF suf
         \<and> (execute env sd \<noteq> [] \<longrightarrow>
               \<not> isCRLF (hd (execute env sd)) \<and> \<not> isCRLF (last (execute env sd)))"
proof -
  let ?P = "\<lambda>c. c \<in> set [CHR 0x0D, CHR 0x0A]"
  let ?t = "threeTemplates env (setMethodSets sd)"
  let ?pre = "takeWhile ?P ?t"
  let ?suf = "rev (takeWhile ?P (rev (dropWhile ?P ?t)))"
  let ?printed = "if s_Deprecated service then g @ [''//'', deprecationComment] else g"
  have P: "?P c = isCRLF c" for c by (auto simp: isCRLF_def)
  have 1: "genService env visits ms filePath g service omitempty
             = (w, Returned (?printed @ [execute env sd], ms'))"
    using genService_eq [OF assms(1)] assms(2) by simp
  have 2: "?t = ?pre @ execute env sd @ ?suf"
    unfolding execute_def by (rule strings_Trim_decompose)
  from renderServer_starts_with_LF obtain rest where "renderServer env (setMethodSets sd) = CHR 0x0A # rest"
    by blast
  then have "?t = CHR 0x0A # rest @ [CHR 0x0A, CHR 0x0A] @ renderClient env (setMethodSets sd)
                     @ [CHR 0x0A, CHR 0x0A] @ renderTags env (setMethodSets sd)"
    by (simp add: threeTemplates_def)
  then have 3: "?pre \<noteq> []" by simp
  have 4: "list_all isCRLF ?pre"
    unfolding list_all_iff using set_takeWhileD [of _ ?P ?t] P by blast
  have 5: "list_all isCRLF ?suf"
    unfolding list_all_iff set_rev using set_takeWhileD [of _ ?P "rev (dropWhile ?P ?t)"] P by blast
  have 6: "execute env sd \<noteq> [] \<longrightarrow> \<not> isCRLF (hd (execute env sd)) \<and> \<not> isCRLF (last (execute env sd))"
    unfolding execute_def
    using strings_Trim_hd [of ?t "[CHR 0x0D, CHR 0x0A]"] strings_Trim_last [of ?t "[CHR 0x0D, CHR 0x0A]"] P
    by blast
  from 2 have 7: "renderServer env (setMethodSets sd) @ [CHR 0x0A, CHR 0x0A]
             @ renderClient env (setMethodSets sd) @ [CHR 0x0A, CHR 0x0A]
             @ renderTags env (setMethodSets sd) = ?pre @ execute env sd @ ?suf"
    by (simp only: threeTemplates_def)
  from 1 7 3 4 5 6 show ?thesis by blast
qed

theorem execute_trims_three_templates_witness:
  "\<exists>w sd ms' printed pre suf.
      genService exampleEnv allInOrder noMethodSets ''users.proto'' []
          (exampleService (Some ruleTwoBindings)) True
        = (w, Returned (printed @ [execute exampleEnv sd], ms'))
    \<and> renderServer exampleEnv (setMethodSets sd) @ [CHR 0x0A, CHR 0x0A]
        @ renderClient exampleEnv (setMethodSets sd) @ [CHR 0x0A, CHR 0x0A]
        @ renderTags exampleEnv (setMethodSets sd)
        = pre @ execute exampleEnv sd @ suf
    \<and> pre \<noteq> [] \<and> list_all isCRLF pre \<and> list_all isCRLF suf"
proof -
  let ?svc = "exampleService (Some ruleTwoBindings)"
  have b: "serviceBuilds exampleEnv allInOrder ?svc True" by code_simp
  from genServiceDesc_builds [OF b, of noMethodSets "''users.proto''"] obtain w sd ms' where
    g: "genServiceDesc exampleEnv allInOrder noMethodSets ''users.proto'' ?svc True = (w, Returned (sd, ms'))"
    by blast
  have "map_option (\<lambda>r. length (Methods (fst r)))
          (returned (snd (genServiceDesc exampleEnv allInOrder noMethodSets ''users.proto'' ?svc True)))
        = Some 2" by code_simp
  with g have ne: "Methods sd \<noteq> []" by auto
  from execute_trims_three_templates [OF g ne, of "[]"] show ?thesis by blast
qed

theorem execute_not_the_concatenation_counterexample:
  "Methods exampleServiceDesc \<noteq> []
   \<and> execute exampleEnv exampleServiceDesc
       \<noteq> renderServer exampleEnv (setMethodSets exampleServiceDesc) @ [CHR 0x0A, CHR 0x0A]
           @ renderClient exampleEnv (setMethodSets exampleServiceDesc) @ [CHR 0x0A, CHR 0x0A]
           @ renderTags exampleEnv (setMethodSets exampleServiceDesc)
   \<and> take 8 (renderServer exampleEnv (setMethodSets exampleServiceDesc)) = [CHR 0x0A, CHR 0x0A] @ ''const ''
   \<and> take 6 (execute exampleEnv exampleServiceDesc) = ''const ''"
  by code_simp


end
